theory Spec2Isabelle
  imports Main
begin

section \<open>JavaScript values and errors\<close>

text \<open>
  Payloads that cross the process boundary. Numbers that occur as payloads are kept
  as integers; an array is \<open>JArr\<close>, so that \<open>promise.resolve(args)\<close> (the whole
  argument array as one value) and \<open>promise.resolve(...args)\<close> (its only element)
  are different values.
\<close>

datatype jsval =
    JUndefined
  | JNull
  | JBool bool
  | JNum int
  | JStr string
  | JArr "jsval list"
  | JObj "(string \<times> jsval) list"

text \<open>
  What a \<open>throw\<close> carries, a \<open>catch (e)\<close> receives and a promise rejects with: an
  \<open>Error\<close> object with its message (\<open>new Error('...')\<close>), the \<open>TypeError\<close> of a
  property access on \<open>null\<close>/\<open>undefined\<close>, or any other value, \<open>null\<close> and
  \<open>undefined\<close> included.
\<close>

datatype js_error = Error string | TypeError string | Thrown jsval

text \<open>\<open>err.message\<close> cannot be read when \<open>err\<close> is \<open>null\<close> or \<open>undefined\<close>;
  otherwise it is the message of an error object, the \<open>message\<close> property of a plain
  object, and \<open>undefined\<close> for a value that has none.\<close>

fun nullish :: "js_error \<Rightarrow> bool" where
  "nullish (Thrown JNull) = True"
| "nullish (Thrown JUndefined) = True"
| "nullish err = False"

fun messageProp :: "js_error \<Rightarrow> jsval" where
  "messageProp (Error m) = JStr m"
| "messageProp (TypeError m) = JStr m"
| "messageProp (Thrown (JObj kvs)) =
     (case map_of kvs ''message'' of None \<Rightarrow> JUndefined | Some v \<Rightarrow> v)"
| "messageProp (Thrown v) = JUndefined"

text \<open>\<open>Array.prototype.findIndex\<close>: the first index whose element satisfies the
  predicate, \<open>-1\<close> when there is none.\<close>

fun findIndex :: "('a \<Rightarrow> bool) \<Rightarrow> 'a list \<Rightarrow> int" where
  "findIndex P [] = - 1"
| "findIndex P (x # xs) =
     (if P x then 0
      else (let i = findIndex P xs in if i = - 1 then - 1 else i + 1))"

text \<open>\<open>xs.splice(start, 1)\<close>: a negative \<open>start\<close> counts from the end (so
  \<open>splice(-1, 1)\<close> removes the last element), a \<open>start\<close> beyond the end removes
  nothing.\<close>

definition splice1 :: "int \<Rightarrow> 'a list \<Rightarrow> 'a list" where
  "splice1 start xs =
     (let len = int (length xs);
          st = (if start < 0 then max (len + start) 0 else min start len)
      in take (nat st) xs @ drop (Suc (nat st)) xs)"

text \<open>\<open>xs[i]\<close>: \<open>undefined\<close> (here \<open>None\<close>) out of range.\<close>

definition at_index :: "'a list \<Rightarrow> int \<Rightarrow> 'a option" where
  "at_index xs i = (if 0 \<le> i \<and> i < int (length xs) then Some (xs ! nat i) else None)"

section \<open>ArcBase (src/scripts/main/arc-base.js)\<close>

subsection \<open>State\<close>

text \<open>
  A promise object is the list of calls its \<open>resolve\<close>/\<open>reject\<close> functions have
  received, in order. Only the first call settles the promise; the later ones are
  ignored by the runtime but stay visible here, so that "settled exactly once" is the
  statement that this list has one element.
\<close>

datatype settle = Resolve jsval | Reject jsval

datatype promise_state = Pending | Fulfilled jsval | Rejected jsval

fun stateOf :: "settle list \<Rightarrow> promise_state" where
  "stateOf [] = Pending"
| "stateOf (Resolve v # _) = Fulfilled v"
| "stateOf (Reject v # _) = Rejected v"

text \<open>The object \<open>{id, resolve, reject}\<close> pushed by \<open>appendPromise\<close>:
  \<open>p_promise\<close> is the address of the promise whose resolving functions it holds.\<close>

record ipc_promise =
  p_id :: nat
  p_promise :: nat

text \<open>The object \<open>{name, id}\<close> pushed by \<open>debounce\<close>.\<close>

record debouncer =
  d_name :: string
  d_id :: nat

text \<open>
  A pending timer of the runtime: the arrow function given to \<open>setTimeout\<close> by
  \<open>debounce\<close> closes over \<open>name\<close> and \<open>callback\<close>. A callback is opaque: it is
  identified by a label, its invocations are recorded, and it is taken not to act on the
  object itself.
\<close>

record timer =
  t_id :: nat
  t_due :: nat
  t_name :: string
  t_callback :: nat

record invocation =
  i_name :: string
  i_callback :: nat
  i_time :: nat

datatype log_entry = LogDebug "jsval list" | LogError "jsval list"

text \<open>
  The fields of the object (\<open>_ipcRequestId\<close>, \<open>_promises\<close>, \<open>_debouncers\<close>)
  followed by the part of the runtime the methods act on: the promises allocated by
  \<open>new Promise\<close> (address = position), the timer table of
  \<open>setTimeout\<close>/\<open>clearTimeout\<close> with a millisecond clock, the record of callback
  invocations and the output of the logger.
\<close>

record arc_base =
  ipcRequestId :: nat
  promises :: "ipc_promise list"
  debouncers :: "debouncer list"
  heap :: "settle list list"
  timers :: "timer list"
  clock :: nat
  timerSeq :: nat
  invoked :: "invocation list"
  logged :: "log_entry list"

definition constructor :: arc_base where
  "constructor =
     \<lparr>ipcRequestId = 0, promises = [], debouncers = [], heap = [], timers = [],
      clock = 0, timerSeq = 0, invoked = [], logged = []\<rparr>"

subsection \<open>nextIpcRequestId\<close>

text \<open>
  \<open>++x\<close> on a JavaScript Number holding a non-negative integer. Numbers are IEEE-754
  doubles: below \<open>2^53\<close> the sum is exact; from \<open>2^53\<close> to \<open>2^54\<close> only even
  integers exist and \<open>x + 1\<close> lies halfway between \<open>x\<close> and \<open>x + 2\<close>, rounded to
  the one with even significand; from \<open>2^54\<close> on \<open>x + 1\<close> rounds back to \<open>x\<close>.
\<close>

definition js_incr :: "nat \<Rightarrow> nat" where
  "js_incr x =
     (if x < 2 ^ 53 then x + 1
      else if x < 2 ^ 54 then (if x mod 4 = 0 then x else x + 2)
      else x)"

definition nextIpcRequestId :: "arc_base \<Rightarrow> nat \<times> arc_base" where
  "nextIpcRequestId s =
     (let v = js_incr (ipcRequestId s) in (v, s\<lparr>ipcRequestId := v\<rparr>))"

text \<open>The ids returned by \<open>n\<close> successive calls, and the state they leave.\<close>

fun nextIds :: "nat \<Rightarrow> arc_base \<Rightarrow> nat list \<times> arc_base" where
  "nextIds 0 s = ([], s)"
| "nextIds (Suc n) s =
     (let (v, s') = nextIpcRequestId s; (vs, s'') = nextIds n s' in (v # vs, s''))"

text \<open>The state after \<open>n\<close> calls, and the id returned by the \<open>k\<close>-th call
  (\<open>k \<ge> 1\<close>) on a fresh object.\<close>

fun counterAfter :: "nat \<Rightarrow> arc_base \<Rightarrow> arc_base" where
  "counterAfter 0 s = s"
| "counterAfter (Suc n) s = counterAfter n (snd (nextIpcRequestId s))"

definition idOfCall :: "nat \<Rightarrow> nat" where
  "idOfCall k = fst (nextIpcRequestId (counterAfter (k - 1) constructor))"

subsection \<open>appendPromise and the IPC callback\<close>

text \<open>\<open>new Promise(executor)\<close> allocates a pending promise; the executor pushes
  \<open>{id, resolve, reject}\<close>. The result is the promise (its address).\<close>

definition appendPromise :: "nat \<Rightarrow> arc_base \<Rightarrow> nat \<times> arc_base" where
  "appendPromise ident s =
     (let p = length (heap s);
          obj = \<lparr>p_id = ident, p_promise = p\<rparr>
      in (p, s\<lparr>heap := heap s @ [[]], promises := promises s @ [obj]\<rparr>))"

text \<open>A call of a promise's \<open>resolve\<close> or \<open>reject\<close> function.\<close>

definition settlePromise :: "nat \<Rightarrow> settle \<Rightarrow> arc_base \<Rightarrow> arc_base" where
  "settlePromise p c s = s\<lparr>heap := (heap s)[p := heap s ! p @ [c]]\<rparr>"

definition logDebug :: "jsval list \<Rightarrow> arc_base \<Rightarrow> arc_base" where
  "logDebug xs s = s\<lparr>logged := logged s @ [LogDebug xs]\<rparr>"

definition logError :: "jsval list \<Rightarrow> arc_base \<Rightarrow> arc_base" where
  "logError xs s = s\<lparr>logged := logged s @ [LogError xs]\<rparr>"

text \<open>\<open>promise.resolve(v)\<close> or \<open>promise.reject(v)\<close> on what \<open>this._promises[index]\<close>
  gave: a \<open>TypeError\<close> if that is \<open>undefined\<close>.\<close>

definition callResolver ::
  "ipc_promise option \<Rightarrow> settle \<Rightarrow> arc_base \<Rightarrow> (js_error + unit) \<times> arc_base" where
  "callResolver promise c s =
     (case promise of
        None \<Rightarrow> (Inl (TypeError ''Cannot read properties of undefined''), s)
      | Some p \<Rightarrow> (Inr (), settlePromise (p_promise p) c s))"

text \<open>
  \<open>_ipcPromiseCallback(e, id, isError, ...args)\<close>. The event \<open>e\<close> is not used by
  the body. \<open>Inl\<close> is the thrown error; the state is returned in both cases, since
  what was done before a \<open>throw\<close> stays done.
\<close>

definition ipcPromiseCallback ::
  "nat \<Rightarrow> bool \<Rightarrow> jsval list \<Rightarrow> arc_base \<Rightarrow> (js_error + unit) \<times> arc_base" where
  "ipcPromiseCallback ident isError args s =
     (let s1 = logDebug [JStr ''Received IPC response for id'', JNum (int ident),
                         JStr '', is error? '', JBool isError, JArr args] s;
          index = findIndex (\<lambda>p. p_id p = ident) (promises s1)
      in if index = - 1 then
           (Inl (Error ''Promise not found''),
            logError [JStr ''IPC promise for id'', JNum (int ident), JStr '' not found''] s1)
         else
           (let promise = at_index (promises s1) index;
                s2 = s1\<lparr>promises := splice1 index (promises s1)\<rparr>
            in if isError then
                 (let s3 = logDebug [JStr ''Rejecting IPC promise''] s2 in
                  if length args = 1
                  then callResolver promise (Reject (hd args)) s3
                  else callResolver promise (Reject (JArr args)) s3)
               else
                 (let s3 = logDebug [JStr ''Resolving IPC promise''] s2 in
                  if length args = 1
                  then callResolver promise (Resolve (hd args)) s3
                  else callResolver promise (Resolve (JArr args)) s3)))"

text \<open>
  A run of the correlator: \<open>Issue i\<close> is \<open>appendPromise(i)\<close>, whose result is the
  promise handed to the caller; \<open>Complete i isError args\<close> is the arrival of a response,
  \<open>_ipcPromiseCallback(e, i, isError, ...args)\<close>. A thrown error ends the run. The result
  lists, for every operation, the promise an \<open>Issue\<close> returned (\<open>None\<close> for a
  \<open>Complete\<close>).
\<close>

datatype corr_op = Issue nat | Complete nat bool "jsval list"

fun run :: "corr_op list \<Rightarrow> arc_base \<Rightarrow> (js_error + nat option list) \<times> arc_base" where
  "run [] s = (Inr [], s)"
| "run (Issue i # ops) s =
     (let (p, s') = appendPromise i s in
      case run ops s' of
        (Inl err, s'') \<Rightarrow> (Inl err, s'')
      | (Inr rs, s'') \<Rightarrow> (Inr (Some p # rs), s''))"
| "run (Complete i isError args # ops) s =
     (case ipcPromiseCallback i isError args s of
        (Inl err, s') \<Rightarrow> (Inl err, s')
      | (Inr _, s') \<Rightarrow>
          (case run ops s' of
             (Inl err, s'') \<Rightarrow> (Inl err, s'')
           | (Inr rs, s'') \<Rightarrow> (Inr (None # rs), s'')))"

text \<open>
  The sequences the correlator is specified for, given the ids pending at the start: an
  id is issued only while it is not pending (the precondition of \<open>issue\<close>) and completed
  only while it is pending.
\<close>

fun wellSequenced :: "nat list \<Rightarrow> corr_op list \<Rightarrow> bool" where
  "wellSequenced pending [] = True"
| "wellSequenced pending (Issue i # ops) =
     (i \<notin> set pending \<and> wellSequenced (pending @ [i]) ops)"
| "wellSequenced pending (Complete i isError args # ops) =
     (i \<in> set pending \<and> wellSequenced (removeAll i pending) ops)"

text \<open>The first response for an id in a sequence of operations.\<close>

fun firstComplete :: "nat \<Rightarrow> corr_op list \<Rightarrow> (bool \<times> jsval list) option" where
  "firstComplete i [] = None"
| "firstComplete i (Issue j # ops) = firstComplete i ops"
| "firstComplete i (Complete j isError args # ops) =
     (if j = i then Some (isError, args) else firstComplete i ops)"

text \<open>
  The settlement the specification asks for, in its words: a single argument settles
  the handle with that one value, any other number of arguments with the full ordered
  list; \<open>isError\<close> rejects.
\<close>

fun expectedSettle :: "bool \<Rightarrow> jsval list \<Rightarrow> settle" where
  "expectedSettle isError [v] = (if isError then Reject v else Resolve v)"
| "expectedSettle isError args = (if isError then Reject (JArr args) else Resolve (JArr args))"

definition expectedCalls :: "nat \<Rightarrow> corr_op list \<Rightarrow> settle list" where
  "expectedCalls i ops =
     (case firstComplete i ops of
        None \<Rightarrow> []
      | Some (isError, args) \<Rightarrow> [expectedSettle isError args])"

fun numIssues :: "corr_op list \<Rightarrow> nat" where
  "numIssues [] = 0"
| "numIssues (Issue i # ops) = Suc (numIssues ops)"
| "numIssues (Complete i isError args # ops) = numIssues ops"

fun issueResults :: "nat \<Rightarrow> corr_op list \<Rightarrow> nat option list" where
  "issueResults n [] = []"
| "issueResults n (Issue i # ops) = Some n # issueResults (Suc n) ops"
| "issueResults n (Complete i isError args # ops) = None # issueResults n ops"

fun expectedHeap :: "corr_op list \<Rightarrow> settle list list" where
  "expectedHeap [] = []"
| "expectedHeap (Issue i # ops) = expectedCalls i ops # expectedHeap ops"
| "expectedHeap (Complete i isError args # ops) = expectedHeap ops"

definition pendingInv :: "arc_base \<Rightarrow> bool" where
  "pendingInv s =
     (distinct (map p_id (promises s)) \<and> distinct (map p_promise (promises s)) \<and>
      (\<forall>p \<in> set (promises s). p_promise p < length (heap s)))"

text \<open>The out-of-order scenario of the specification: ids 1, 2, 3 are issued and
  completed in the order 3, 1, 2.\<close>

definition exampleOps :: "corr_op list" where
  "exampleOps =
     [Issue 1, Issue 2, Issue 3,
      Complete 3 False [JStr ''c''],
      Complete 1 True [JStr ''a'', JStr ''b''],
      Complete 2 False [JNum 7]]"

subsection \<open>Timers of the runtime\<close>

text \<open>
  \<open>arc-base.js\<close> runs in the main (Node.js) process, whose \<open>setTimeout\<close> sets a
  delay below 1 or above 2147483647 milliseconds to 1.
\<close>

definition timerDelay :: "nat \<Rightarrow> nat" where
  "timerDelay time = (if time < 1 \<or> 2147483647 < time then 1 else time)"

text \<open>\<open>setTimeout(() => {...}, time)\<close> for the arrow function of \<open>debounce\<close>, which
  closes over \<open>name\<close> and \<open>callback\<close>; the result is the timer's id.\<close>

definition setTimeout :: "string \<Rightarrow> nat \<Rightarrow> nat \<Rightarrow> arc_base \<Rightarrow> nat \<times> arc_base" where
  "setTimeout name callback time s =
     (let tid = timerSeq s;
          t = \<lparr>t_id = tid, t_due = clock s + timerDelay time, t_name = name,
               t_callback = callback\<rparr>
      in (tid, s\<lparr>timerSeq := Suc tid, timers := timers s @ [t]\<rparr>))"

definition clearTimeout :: "nat \<Rightarrow> arc_base \<Rightarrow> arc_base" where
  "clearTimeout tid s = s\<lparr>timers := filter (\<lambda>t. t_id t \<noteq> tid) (timers s)\<rparr>"

subsection \<open>debounce and cancelDebounce\<close>

definition debounceIndex :: "string \<Rightarrow> arc_base \<Rightarrow> int" where
  "debounceIndex name s = findIndex (\<lambda>item. d_name item = name) (debouncers s)"

text \<open>
  \<open>debounce(name, callback, time)\<close>. The guard \<open>if (!this._debouncers)\<close> never
  fires: the constructor sets the field to an array, and an array is truthy.
\<close>

definition debounce :: "string \<Rightarrow> nat \<Rightarrow> nat \<Rightarrow> arc_base \<Rightarrow> arc_base" where
  "debounce name callback time s =
     (let index = debounceIndex name s in
      if index \<noteq> - 1 then s
      else (let (cancelId, s1) = setTimeout name callback time s in
            s1\<lparr>debouncers := debouncers s1 @ [\<lparr>d_name = name, d_id = cancelId\<rparr>]\<rparr>))"

text \<open>The arrow function of \<open>debounce\<close>, run by the timer \<open>t\<close>: it looks the name
  up again, splices at the index found (\<open>-1\<close> included) and calls the callback.\<close>

definition fireTimer :: "timer \<Rightarrow> arc_base \<Rightarrow> arc_base" where
  "fireTimer t s =
     (let index = debounceIndex (t_name t) s;
          s1 = s\<lparr>debouncers := splice1 index (debouncers s)\<rparr>
      in s1\<lparr>invoked := invoked s1 @
               [\<lparr>i_name = t_name t, i_callback = t_callback t, i_time = clock s1\<rparr>]\<rparr>)"

definition cancelDebounce :: "string \<Rightarrow> arc_base \<Rightarrow> (js_error + unit) \<times> arc_base" where
  "cancelDebounce name s =
     (let index = debounceIndex name s in
      if index = - 1 then (Inr (), s)
      else (case at_index (debouncers s) index of
              None \<Rightarrow> (Inl (TypeError ''Cannot read properties of undefined''), s)
            | Some item \<Rightarrow>
                (let s1 = clearTimeout (d_id item) s in
                 (Inr (), s1\<lparr>debouncers := splice1 index (debouncers s1)\<rparr>))))"

text \<open>
  The event loop, one millisecond at a time: the clock advances, the timers that are due
  leave the table and run in the order of their creation.
\<close>

definition tick :: "arc_base \<Rightarrow> arc_base" where
  "tick s =
     (let s1 = s\<lparr>clock := Suc (clock s)\<rparr>;
          due = filter (\<lambda>t. t_due t \<le> clock s1) (timers s1);
          s2 = s1\<lparr>timers := filter (\<lambda>t. \<not> t_due t \<le> clock s1) (timers s1)\<rparr>
      in fold fireTimer due s2)"

fun advance :: "nat \<Rightarrow> arc_base \<Rightarrow> arc_base" where
  "advance 0 s = s"
| "advance (Suc n) s = advance n (tick s)"

datatype base_op = Debounce string nat nat | CancelDebounce string | Tick

fun baseStep :: "base_op \<Rightarrow> arc_base \<Rightarrow> arc_base" where
  "baseStep (Debounce name callback time) s = debounce name callback time s"
| "baseStep (CancelDebounce name) s = snd (cancelDebounce name s)"
| "baseStep Tick s = tick s"

fun runBase :: "base_op list \<Rightarrow> arc_base \<Rightarrow> arc_base" where
  "runBase [] s = s"
| "runBase (x # xs) s = runBase xs (baseStep x s)"

definition invocationsOf :: "string \<Rightarrow> arc_base \<Rightarrow> invocation list" where
  "invocationsOf name s = filter (\<lambda>i. i_name i = name) (invoked s)"

text \<open>What holds of the debouncers and the timer table between operations: names and
  timer ids are unique, no timer is overdue, and the debouncers are the timers, in order.\<close>

definition debounceInv :: "arc_base \<Rightarrow> bool" where
  "debounceInv s =
     (distinct (map d_name (debouncers s)) \<and>
      distinct (map t_id (timers s)) \<and>
      (\<forall>t \<in> set (timers s). t_id t < timerSeq s \<and> clock s < t_due t) \<and>
      map (\<lambda>d. (d_name d, d_id d)) (debouncers s) = map (\<lambda>t. (t_name t, t_id t)) (timers s))"

section \<open>ArcInit (src/app.js)\<close>

subsection \<open>State, effects and the collaborators of the window\<close>

text \<open>
  What a method does to the world outside the object, in order: console output, messages
  sent across the boundary (\<open>ipc.send\<close>, \<open>e.sender.send\<close>), calls of collaborators
  (\<open>Call target args\<close>; a method of the object itself that the two dispatchers call is
  recorded the same way, under \<open>this.\<close>), and writes to properties of DOM objects.
\<close>

datatype event =
    ConsoleLog "jsval list"
  | ConsoleInfo "jsval list"
  | ConsoleWarn "jsval list"
  | ConsoleError "jsval list"
  | IpcSend string "jsval list"
  | SenderSend string "jsval list"
  | Call string "jsval list"
  | SetProperty string jsval
  | DispatchEvent string jsval

text \<open>The states of the startup sequence, in the specification's names.\<close>

datatype stage = AwaitingConfig | ConfigReceived | Built | PathResolved | Ready

text \<open>The configuration object loaded by \<open>prefProxy.load()\<close>, with the two
  properties \<open>app.js\<close> reads.\<close>

record config =
  theme :: jsval
  upgrades :: jsval

text \<open>The \<open>info\<close> object of \<open>window-state-info\<close>; \<open>startPath = None\<close> is a
  missing property.\<close>

record init_config =
  workspaceFile :: jsval
  darkMode :: bool
  startPath :: "string option"

text \<open>
  The object and what it reaches through the document: \<open>appPresent\<close> says whether
  \<open>document.getElementById('app')\<close> (the getter \<open>this.app\<close>) finds the element,
  \<open>compatibility\<close> and \<open>menuConfig\<close> are properties of that element,
  \<open>prefLoads\<close> counts the calls of \<open>prefProxy.load()\<close> made so far. \<open>stages\<close>
  lists the stages entered; it labels the points between the awaits of
  \<open>_stateInfoHandler\<close> and nothing reads it.
\<close>

record arc_init =
  created :: bool
  initConfig :: init_config
  appPresent :: bool
  compatibility :: bool
  menuConfig :: "(string \<times> bool) list option"
  prefLoads :: nat
  stages :: "stage list"
  trace :: "event list"

text \<open>
  The collaborators, which are not part of \<open>app.js\<close>: each field is what the call
  returns or throws (for a promise: resolves to or rejects with). \<open>prefLoad k\<close> is the
  outcome of call number \<open>k\<close> of \<open>prefProxy.load()\<close>; \<open>appMethod name args\<close> that
  of \<open>app.name(...args)\<close>; \<open>loadingInfoNode\<close> and \<open>loaderNode\<close> say whether
  \<open>document.querySelector\<close> finds \<open>.loading-info\<close> and \<open>.loader\<close>.
\<close>

record env =
  prefLoad :: "nat \<Rightarrow> js_error + config"
  importModule :: "js_error + jsval"
  appMethod :: "string \<Rightarrow> jsval list \<Rightarrow> js_error + jsval"
  activeRequest :: "jsval \<Rightarrow> jsval"
  loadTheme :: "jsval \<Rightarrow> js_error + jsval"
  getUpgrades :: "jsval \<Rightarrow> jsval list option"
  upgrade :: "jsval list \<Rightarrow> js_error + jsval"
  getFile :: "jsval \<Rightarrow> js_error + jsval"
  jsonParse :: "jsval \<Rightarrow> js_error + jsval"
  processFile :: "jsval \<Rightarrow> js_error + jsval"
  exportFileData :: "jsval list \<Rightarrow> js_error + jsval"
  loadingInfoNode :: bool
  loaderNode :: bool

text \<open>A method: it changes the state and returns a value or throws; for an
  \<open>async\<close> method, the promise it returns resolves or rejects. An \<open>await\<close> runs
  the awaited call to its end: what other handlers do while a method is suspended is
  outside the model.\<close>

type_synonym 'a action = "arc_init \<Rightarrow> (js_error + 'a) \<times> arc_init"

definition returns :: "'a \<Rightarrow> 'a action" where
  "returns x s = (Inr x, s)"

definition throws :: "js_error \<Rightarrow> 'a action" where
  "throws err s = (Inl err, s)"

text \<open>Sequencing (\<open>f; g\<close>, or \<open>x = await f; g\<close>) and \<open>try { f } catch (e) { h }\<close>.\<close>

definition andThen :: "'a action \<Rightarrow> ('a \<Rightarrow> 'b action) \<Rightarrow> 'b action" where
  "andThen f g s = (case f s of (Inl err, s') \<Rightarrow> (Inl err, s') | (Inr x, s') \<Rightarrow> g x s')"

definition tryCatch :: "'a action \<Rightarrow> (js_error \<Rightarrow> 'a action) \<Rightarrow> 'a action" where
  "tryCatch f h s = (case f s of (Inl err, s') \<Rightarrow> h err s' | (Inr x, s') \<Rightarrow> (Inr x, s'))"

text \<open>An \<open>async\<close> method called without \<open>await\<close>: the caller gets a promise and goes
  on, whether the promise later rejects or not.\<close>

definition detached :: "'a action \<Rightarrow> unit action" where
  "detached f s = (Inr (), snd (f s))"

definition emit :: "event \<Rightarrow> arc_init \<Rightarrow> arc_init" where
  "emit ev s = s\<lparr>trace := trace s @ [ev]\<rparr>"

definition effect :: "event \<Rightarrow> unit action" where
  "effect ev s = (Inr (), emit ev s)"

text \<open>A call of a collaborator, with the outcome the environment gives it.\<close>

definition call :: "string \<Rightarrow> jsval list \<Rightarrow> js_error + jsval \<Rightarrow> jsval action" where
  "call target args outcome s = (outcome, emit (Call target args) s)"

text \<open>\<open>app.name(...args)\<close> where \<open>app\<close> is \<open>this.app\<close>: a \<open>TypeError\<close> when the
  element is not in the document.\<close>

definition appCall :: "env \<Rightarrow> string \<Rightarrow> jsval list \<Rightarrow> jsval action" where
  "appCall E name args s =
     (if appPresent s then call (''app.'' @ name) args (appMethod E name args) s
      else (Inl (TypeError ''Cannot read properties of null''), s))"

fun errVal :: "js_error \<Rightarrow> jsval" where
  "errVal (Error m) = JObj [(''name'', JStr ''Error''), (''message'', JStr m)]"
| "errVal (TypeError m) = JObj [(''name'', JStr ''TypeError''), (''message'', JStr m)]"
| "errVal (Thrown v) = v"

text \<open>The expression \<open>err.message\<close>: a \<open>TypeError\<close> when \<open>err\<close> is \<open>null\<close> or
  \<open>undefined\<close>.\<close>

definition readMessage :: "js_error \<Rightarrow> jsval action" where
  "readMessage err s =
     (if nullish err then (Inl (TypeError ''Cannot read properties of null or undefined''), s)
      else (Inr (messageProp err), s))"

text \<open>\<open>this.app.notifyError(cause.message)\<close>: the callee \<open>this.app.notifyError\<close> is
  evaluated before the argument.\<close>

definition notifyCause :: "env \<Rightarrow> js_error \<Rightarrow> jsval action" where
  "notifyCause E cause s =
     (if appPresent s
      then andThen (readMessage cause) (\<lambda>m. appCall E ''notifyError'' [m]) s
      else (Inl (TypeError ''Cannot read properties of null''), s))"

text \<open>\<open>args[i]\<close>.\<close>

definition argAt :: "jsval list \<Rightarrow> nat \<Rightarrow> jsval" where
  "argAt args i = (if i < length args then args ! i else JUndefined)"

text \<open>JavaScript truthiness of a value.\<close>

fun truthy :: "jsval \<Rightarrow> bool" where
  "truthy JUndefined = False"
| "truthy JNull = False"
| "truthy (JBool b) = b"
| "truthy (JNum n) = (n \<noteq> 0)"
| "truthy (JStr str) = (str \<noteq> [])"
| "truthy (JArr xs) = True"
| "truthy (JObj kvs) = True"



subsection \<open>Startup: initApp, upgradeApp, processInitialPath, removeLoader\<close>




definition loadPreferences :: "env \<Rightarrow> config action" where
  "loadPreferences E s =
     (prefLoad E (prefLoads s),
      emit (Call ''prefProxy.load'' []) (s\<lparr>prefLoads := Suc (prefLoads s)\<rparr>))"

definition setCompatibility :: "bool \<Rightarrow> unit action" where
  "setCompatibility b s =
     (if appPresent s then (Inr (), s\<lparr>compatibility := b\<rparr>)
      else (Inl (TypeError ''Cannot set properties of null''), s))"



definition handleGoogleDriveAction :: "env \<Rightarrow> jsval \<Rightarrow> jsval \<Rightarrow> unit action" where
  "handleGoogleDriveAction E act fileId =
     (if act \<noteq> JStr ''open'' then
        effect (ConsoleWarn [JStr ''Currently only open action for Google Drive is supported.''])
      else if \<not> loadingInfoNode E then
        throws (TypeError ''Cannot set properties of null'')
      else
        andThen (effect (SetProperty ''infoNode.innerText'' (JStr ''Loading file from Google Drive'')))
          (\<lambda>_. andThen (call ''driveBridge.getFile'' [fileId] (getFile E fileId))
          (\<lambda>data.
             if \<not> truthy data then
               andThen (appCall E ''notifyError'' [JStr ''Google drive did not return any data.''])
                 (\<lambda>_. throws (Error ''Google drive did not return any data.''))
             else
               andThen
                 (tryCatch (call ''JSON.parse'' [data] (jsonParse E data))
                    (\<lambda>cause. andThen (effect (ConsoleWarn [errVal cause]))
                      (\<lambda>_. andThen (notifyCause E cause)
                      (\<lambda>_. throws (Error ''Unable to parse received data.'')))))
                 (\<lambda>parsed. effect (DispatchEvent ''import-process-data''
                                     (JObj [(''detail'', JObj [(''data'', parsed)])]))))))"

text \<open>\<open>handleDefaultProtocolActon(args)\<close>: \<open>[source, action, id] = args\<close> leaves
  \<open>undefined\<close> where \<open>args\<close> is too short.\<close>

definition handleDefaultProtocolActon :: "env \<Rightarrow> jsval list \<Rightarrow> unit action" where
  "handleDefaultProtocolActon E args =
     (let source = argAt args 0; act = argAt args 1; ident = argAt args 2 in
      if source = JStr ''google-drive'' then handleGoogleDriveAction E act ident
      else effect (ConsoleWarn [JStr ''Unknown protocol action. '', JArr args]))"


definition removeLoader :: "env \<Rightarrow> unit action" where
  "removeLoader E =
     (if \<not> loaderNode E then returns ()
      else andThen (effect (Call ''loader.classList.add'' [JStr ''end'']))
             (\<lambda>_. effect (Call ''setTimeout'' [JNum 150])))"

text \<open>
  \<open>_stateInfoHandler(e, info)\<close>; \<open>info = None\<close> is a falsy \<open>info\<close>, replaced by
  \<open>{}\<close>. The stages are entered where the specification places them: ConfigReceived
  when the handler starts, Built when \<open>initApp\<close> has returned, PathResolved when
  \<open>upgradeApp\<close> has, Ready when \<open>processInitialPath\<close> has. The copy of
  \<open>info\<close> kept in \<open>window.ArcConfig\<close> is not recorded.
\<close>

definition emptyInfo :: init_config where
  "emptyInfo = \<lparr>workspaceFile = JUndefined, darkMode = False, startPath = None\<rparr>"


text \<open>The object as the constructor leaves it, before the element exists.\<close>

definition newArcInit :: arc_init where
  "newArcInit =
     \<lparr>created = False, initConfig = emptyInfo, appPresent = False, compatibility = False,
      menuConfig = None, prefLoads = 0, stages = [AwaitingConfig], trace = []\<rparr>"

subsection \<open>The two dispatchers\<close>

definition sendTabsCount :: "env \<Rightarrow> jsval \<Rightarrow> unit action" where
  "sendTabsCount E callId =
     andThen (appCall E ''getTabsCount'' [])
       (\<lambda>cnt. effect (SenderSend ''current-tabs-count'' [callId, JBool False, cnt]))"

definition activateTab :: "env \<Rightarrow> jsval \<Rightarrow> jsval \<Rightarrow> unit action" where
  "activateTab E callId tabId s =
     (if appPresent s then
        andThen (effect (SetProperty ''app.workspace.selected'' tabId))
          (\<lambda>_. effect (SenderSend ''tab-activated'' [callId, JBool False])) s
      else (Inl (TypeError ''Cannot read properties of null''), s))"

definition getRequestData :: "env \<Rightarrow> jsval \<Rightarrow> jsval \<Rightarrow> unit action" where
  "getRequestData E callId tabId s =
     (if appPresent s then
        effect (SenderSend ''request-data'' [callId, JBool False, activeRequest E tabId]) s
      else (Inl (TypeError ''Cannot read properties of null''), s))"

definition toggleMenuWindow :: "env \<Rightarrow> unit action" where
  "toggleMenuWindow E s =
     (if appPresent s then
        (let cfg = (case menuConfig s of None \<Rightarrow> [] | Some c \<Rightarrow> c);
             st = (\<not> (case map_of cfg ''menuDisabled'' of None \<Rightarrow> False | Some b \<Rightarrow> b));
             cfg' = (''menuDisabled'', st) # filter (\<lambda>kv. fst kv \<noteq> ''menuDisabled'') cfg
         in andThen (appCall E ''requestUpdate'' []) (\<lambda>_. returns ())
              (s\<lparr>menuConfig := Some cfg'\<rparr>))
      else (Inl (TypeError ''Cannot read properties of null''), s))"

definition processExternalFile :: "env \<Rightarrow> jsval \<Rightarrow> jsval action" where
  "processExternalFile E filePath =
     tryCatch (call ''importPreprocessor.processFile'' [filePath] (processFile E filePath))
       (\<lambda>cause. andThen (notifyCause E cause)
          (\<lambda>_. andThen (effect (ConsoleError [errVal cause]))
          (\<lambda>_. returns JUndefined)))"

definition exportWorkspace :: "env \<Rightarrow> jsval action" where
  "exportWorkspace E =
     andThen (appCall E ''workspace.serializeWorkspace'' [])
       (\<lambda>workspace. call ''fs.exportFileData''
          [workspace, JStr ''application/json'', JStr ''arc-workspace.arc'']
          (exportFileData E [workspace, JStr ''application/json'', JStr ''arc-workspace.arc'']))"

text \<open>A call \<open>this.name(...)\<close> made by a dispatcher: recorded, then run.\<close>

definition invoke :: "string \<Rightarrow> jsval list \<Rightarrow> unit action \<Rightarrow> unit action" where
  "invoke name args body = andThen (effect (Call (''this.'' @ name) args)) (\<lambda>_. body)"

definition appDo :: "env \<Rightarrow> string \<Rightarrow> jsval list \<Rightarrow> unit action" where
  "appDo E name args = andThen (appCall E name args) (\<lambda>_. returns ())"

text \<open>\<open>commandHandler(e, action, ...args)\<close>: the \<open>switch\<close>, case by case in the order
  of the source. The event \<open>e\<close> only serves as the channel of \<open>e.sender.send\<close>.\<close>

definition commandHandler :: "env \<Rightarrow> string \<Rightarrow> jsval list \<Rightarrow> unit action" where
  "commandHandler E act args =
     (if act = ''show-settings'' then appDo E ''openSettings'' []
      else if act = ''about'' then appDo E ''openAbout'' []
      else if act = ''open-license'' then appDo E ''openLicense'' []
      else if act = ''import-data'' then appDo E ''openImport'' []
      else if act = ''export-data'' then appDo E ''openExport'' []
      else if act = ''open-saved'' then appDo E ''openSaved'' []
      else if act = ''open-history'' then appDo E ''openHistory'' []
      else if act = ''open-drive'' then appDo E ''openDrivePicker'' []
      else if act = ''open-messages'' then appDo E ''openInfoCenter'' []
      else if act = ''login-external-webservice'' then appDo E ''openWebUrl'' []
      else if act = ''open-cookie-manager'' then appDo E ''openCookieManager'' []
      else if act = ''open-hosts-editor'' then appDo E ''openHostRules'' []
      else if act = ''get-tabs-count'' then
        invoke ''sendTabsCount'' [argAt args 0] (sendTabsCount E (argAt args 0))
      else if act = ''activate-tab'' then
        invoke ''activateTab'' [argAt args 0, argAt args 1]
          (activateTab E (argAt args 0) (argAt args 1))
      else if act = ''get-request-data'' then
        invoke ''getRequestData'' [argAt args 0, argAt args 1]
          (getRequestData E (argAt args 0) (argAt args 1))
      else if act = ''open-themes'' then appDo E ''openThemesPanel'' []
      else if act = ''open-requests-workspace'' then appDo E ''openWorkspace'' []
      else if act = ''open-web-socket'' then appDo E ''openWebSocket'' []
      else if act = ''popup-menu'' then invoke ''_toggleMenuWindow'' [] (toggleMenuWindow E)
      else if act = ''process-external-file'' then
        invoke ''processExternalFile'' [argAt args 0]
          (detached (processExternalFile E (argAt args 0)))
      else if act = ''open-onboarding'' then appDo E ''openOnboarding'' []
      else if act = ''open-workspace-details'' then appDo E ''openWorkspaceDetails'' []
      else if act = ''export-workspace'' then
        invoke ''exportWorkspace'' [] (detached (exportWorkspace E))
      else effect (ConsoleWarn [JStr ''Unknown command'', JStr act, JArr args]))"

text \<open>\<open>execRequestAction(e, action, ...args)\<close>.\<close>

definition execRequestAction :: "env \<Rightarrow> string \<Rightarrow> jsval list \<Rightarrow> unit action" where
  "execRequestAction E act args =
     (if act = ''save'' then appDo E ''saveOpened'' [JObj [(''source'', JStr ''shortcut'')]]
      else if act = ''save-as'' then appDo E ''saveOpened'' []
      else if act = ''new-tab'' then appDo E ''newRequestTab'' []
      else if act = ''send-current'' then appDo E ''sendCurrentTab'' []
      else if act = ''update-request'' then
        appDo E ''updateRequestTab'' [argAt args 0, argAt args 1]
      else if act = ''close-tab'' then appDo E ''closeActiveTab'' []
      else throws (Error (''Unrecognized action '' @ act)))"

text \<open>The two vocabularies the specification enumerates.\<close>

definition applicationCommands :: "string list" where
  "applicationCommands =
     [''show-settings'', ''about'', ''open-license'', ''import-data'', ''export-data'',
      ''open-saved'', ''open-history'', ''open-drive'', ''open-messages'',
      ''login-external-webservice'', ''open-cookie-manager'', ''open-hosts-editor'',
      ''get-tabs-count'', ''activate-tab'', ''get-request-data'', ''open-themes'',
      ''open-requests-workspace'', ''open-web-socket'', ''popup-menu'',
      ''process-external-file'', ''open-onboarding'', ''open-workspace-details'',
      ''export-workspace'']"

definition requestActions :: "string list" where
  "requestActions =
     [''save'', ''save-as'', ''new-tab'', ''send-current'', ''update-request'', ''close-tab'']"

text \<open>All that a dispatch does: the events it adds to the trace, in order.\<close>

definition newEvents :: "unit action \<Rightarrow> arc_init \<Rightarrow> event list" where
  "newEvents f s = drop (length (trace s)) (trace (snd (f s)))"

text \<open>The first thing a dispatch does: the event it adds first to the trace, if any.\<close>

definition firstEvent :: "unit action \<Rightarrow> arc_init \<Rightarrow> event option" where
  "firstEvent f s =
     (case drop (length (trace s)) (trace (snd (f s))) of [] \<Rightarrow> None | ev # _ \<Rightarrow> Some ev)"

subsection \<open>Frames and sample environments\<close>

text \<open>An action is framed when it leaves the stage list and \<open>initConfig\<close> alone and
  only adds to the trace.\<close>

definition framed :: "'a action \<Rightarrow> bool" where
  "framed f =
     (\<forall>s. stages (snd (f s)) = stages s \<and> initConfig (snd (f s)) = initConfig s \<and>
          (\<exists>evs. trace (snd (f s)) = trace s @ evs))"

text \<open>A window whose collaborators all succeed (and whose Drive returns no data), one
  whose preferences cannot be read, one whose preference load rejects with \<open>null\<close>,
  and two start paths.\<close>

definition quietEnv :: env where
  "quietEnv =
     \<lparr>prefLoad = (\<lambda>k. Inr \<lparr>theme = JUndefined, upgrades = JUndefined\<rparr>),
      importModule = Inr JUndefined,
      appMethod = (\<lambda>name args. Inr JUndefined),
      activeRequest = (\<lambda>tabId. JUndefined),
      loadTheme = (\<lambda>t. Inr JUndefined),
      getUpgrades = (\<lambda>u. None),
      upgrade = (\<lambda>ups. Inr JUndefined),
      getFile = (\<lambda>fileId. Inr JNull),
      jsonParse = (\<lambda>data. Inr JNull),
      processFile = (\<lambda>path. Inr JUndefined),
      exportFileData = (\<lambda>args. Inr JUndefined),
      loadingInfoNode = True,
      loaderNode = True\<rparr>"





section \<open>Verification: ArcBase\<close>

subsection \<open>Arrays\<close>

lemma findIndex_ge: "- 1 \<le> findIndex P xs"
  by (induction xs) (auto simp: Let_def)

lemma findIndex_none: "(findIndex P xs = - 1) = (\<forall>x \<in> set xs. \<not> P x)"
proof (induction xs)
  case Nil
  show ?case by simp
next
  case (Cons x xs)
  have "- 1 \<le> findIndex P xs" by (rule findIndex_ge)
  with Cons show ?case by (auto simp: Let_def)
qed

lemma findIndex_find:
  "find P xs = Some x \<Longrightarrow>
     findIndex P xs \<noteq> - 1 \<and> at_index xs (findIndex P xs) = Some x \<and>
     splice1 (findIndex P xs) xs = remove1 x xs"
proof (induction xs)
  case Nil
  then show ?case by simp
next
  case (Cons y ys)
  show ?case
  proof (cases "P y")
    case True
    with Cons.prems show ?thesis by (simp add: at_index_def splice1_def)
  next
    case False
    with Cons.prems have f: "find P ys = Some x" by simp
    then have px: "P x" by (auto simp: find_Some_iff)
    with False have ne: "y \<noteq> x" by auto
    from Cons.IH [OF f] have a: "findIndex P ys \<noteq> - 1"
      and b: "at_index ys (findIndex P ys) = Some x"
      and c: "splice1 (findIndex P ys) ys = remove1 x ys" by simp_all
    have ge: "0 \<le> findIndex P ys" using findIndex_ge [of P ys] a by linarith
    from b ge have lt: "findIndex P ys < int (length ys)"
      by (simp add: at_index_def split: if_splits)
    have n: "nat (findIndex P ys + 1) = Suc (nat (findIndex P ys))" using ge by simp
    from False a b c ge lt ne show ?thesis
      by (simp add: Let_def at_index_def splice1_def n min_def)
  qed
qed

lemma distinct_map_eqD:
  "distinct (map f xs) \<Longrightarrow> x \<in> set xs \<Longrightarrow> y \<in> set xs \<Longrightarrow> f x = f y \<Longrightarrow> x = y"
  by (auto simp: distinct_map dest: inj_onD)

lemma find_first_key:
  assumes "a \<in> f ` set xs"
  obtains x where "find (\<lambda>y. f y = a) xs = Some x" "x \<in> set xs" "f x = a"
proof (cases "find (\<lambda>y. f y = a) xs")
  case None
  with assms show ?thesis by (auto simp: find_None_iff)
next
  case (Some x)
  then have "x \<in> set xs" "f x = a" by (auto simp: find_Some_iff)
  with Some that show ?thesis by blast
qed

lemma remove1_key_filter:
  assumes "distinct (map f xs)" "x \<in> set xs"
  shows "remove1 x xs = filter (\<lambda>y. f y \<noteq> f x) xs"
proof -
  from assms(1) have d: "distinct xs" by (simp add: distinct_map)
  then have "remove1 x xs = filter ((\<noteq>) x) xs"
    by (simp add: distinct_remove1_removeAll removeAll_filter_not_eq)
  also have "\<dots> = filter (\<lambda>y. f y \<noteq> f x) xs"
    using distinct_map_eqD [OF assms(1) _ assms(2)] by (intro filter_cong) auto
  finally show ?thesis .
qed

lemma splice_found:
  assumes "distinct (map f xs)" "a \<in> f ` set xs"
  shows "findIndex (\<lambda>x. f x = a) xs \<noteq> - 1"
    and "splice1 (findIndex (\<lambda>x. f x = a) xs) xs = filter (\<lambda>x. f x \<noteq> a) xs"
    and "\<exists>x \<in> set xs. f x = a \<and> at_index xs (findIndex (\<lambda>x. f x = a) xs) = Some x"
proof -
  from assms(2) obtain x where f: "find (\<lambda>y. f y = a) xs = Some x" and x: "x \<in> set xs" "f x = a"
    by (rule find_first_key)
  from findIndex_find [OF f] remove1_key_filter [OF assms(1) x(1)] x
  show "findIndex (\<lambda>x. f x = a) xs \<noteq> - 1"
    and "splice1 (findIndex (\<lambda>x. f x = a) xs) xs = filter (\<lambda>x. f x \<noteq> a) xs"
    and "\<exists>x \<in> set xs. f x = a \<and> at_index xs (findIndex (\<lambda>x. f x = a) xs) = Some x"
    by auto
qed

subsection \<open>The request counter\<close>

lemma js_incr_small: "x < 2 ^ 53 \<Longrightarrow> js_incr x = Suc x"
  by (simp add: js_incr_def)

lemma js_incr_limit: "x = 2 ^ 53 \<Longrightarrow> js_incr x = x"
  by (simp add: js_incr_def)

lemma js_incr_limit_num: "js_incr 9007199254740992 = 9007199254740992"
  by (simp add: js_incr_def)

lemma counterAfter_counter:
  "ipcRequestId s \<le> 2 ^ 53 \<Longrightarrow>
     ipcRequestId (counterAfter n s) = min (ipcRequestId s + n) (2 ^ 53)"
proof (induction n arbitrary: s)
  case 0
  then show ?case by simp
next
  case (Suc n)
  let ?s' = "snd (nextIpcRequestId s)"
  show ?case
  proof (cases "ipcRequestId s < 2 ^ 53")
    case True
    then have c: "ipcRequestId ?s' = Suc (ipcRequestId s)"
      by (simp add: nextIpcRequestId_def Let_def js_incr_small)
    with True have "ipcRequestId ?s' \<le> 2 ^ 53" by simp
    from Suc.IH [OF this] c show ?thesis by simp
  next
    case False
    with Suc.prems have e: "ipcRequestId s = 2 ^ 53" by simp
    have c: "ipcRequestId ?s' = ipcRequestId s"
      by (simp add: nextIpcRequestId_def Let_def js_incr_limit [OF e])
    with e have "ipcRequestId ?s' \<le> 2 ^ 53" by simp
    from Suc.IH [OF this] c e show ?thesis by simp
  qed
qed

lemma nextIds_fresh:
  "ipcRequestId s + n \<le> 2 ^ 53 \<Longrightarrow>
   fst (nextIds n s) = [Suc (ipcRequestId s) ..< Suc (ipcRequestId s + n)]"
proof (induction n arbitrary: s)
  case 0
  then show ?case by simp
next
  case (Suc n)
  let ?s' = "snd (nextIpcRequestId s)"
  from Suc.prems have lt: "ipcRequestId s < 2 ^ 53" by simp
  then have c: "ipcRequestId ?s' = Suc (ipcRequestId s)"
      and v: "fst (nextIpcRequestId s) = Suc (ipcRequestId s)"
    by (simp_all add: nextIpcRequestId_def Let_def js_incr_small)
  with Suc.prems have "ipcRequestId ?s' + n \<le> 2 ^ 53" by simp
  from Suc.IH [OF this] c v show ?case
    by (simp add: split_beta Let_def upt_conv_Cons)
qed

lemma idOfCall_eq: "0 < k \<Longrightarrow> idOfCall k = min k (2 ^ 53)"
proof -
  assume k: "0 < k"
  have c: "ipcRequestId (counterAfter (k - 1) constructor) = min (k - 1) (2 ^ 53)"
    using counterAfter_counter [of constructor "k - 1"] by (simp add: constructor_def)
  show ?thesis
  proof (cases "k - 1 < 2 ^ 53")
    case True
    with c k show ?thesis
      by (simp add: idOfCall_def nextIpcRequestId_def Let_def js_incr_small min_def)
  next
    case False
    with c have e: "ipcRequestId (counterAfter (k - 1) constructor) = 2 ^ 53"
      by (simp add: min_def)
    from False k have "min k (2 ^ 53) = (2 ^ 53 :: nat)" by simp
    with e show ?thesis
      by (simp add: idOfCall_def nextIpcRequestId_def Let_def js_incr_limit_num)
  qed
qed

text \<open>
  C9, as amended. The first \<open>n\<close> calls of \<open>nextIpcRequestId\<close> on a fresh object return
  1, 2, ..., \<open>n\<close>, each strictly greater than all earlier ones and none repeated, as long
  as \<open>n\<close> does not exceed \<open>2^53\<close>, the largest value the counter reaches.
\<close>

theorem nextIpcRequestId_fresh:
  "n \<le> 2 ^ 53 \<Longrightarrow>
     fst (nextIds n constructor) = [1 ..< Suc n] \<and>
     (\<forall>i < n. \<forall>j < i. fst (nextIds n constructor) ! j < fst (nextIds n constructor) ! i) \<and>
     distinct (fst (nextIds n constructor))"
proof -
  assume n: "n \<le> 2 ^ 53"
  have e: "fst (nextIds n constructor) = [1 ..< Suc n]"
    using nextIds_fresh [of constructor n] n by (simp add: constructor_def)
  show ?thesis unfolding e by (auto simp del: upt_Suc)
qed

theorem nextIpcRequestId_fresh_witness:
  "(3::nat) \<le> 2 ^ 53 \<and> fst (nextIds 3 constructor) = [1, 2, 3]"
  using nextIpcRequestId_fresh [of 3] by (simp add: upt_conv_Cons)

text \<open>
  C9 as stated fails: the counter is a double, \<open>2^53 + 1\<close> is not one, and call number
  \<open>2^53 + 1\<close> returns the id of call number \<open>2^53\<close> again.
\<close>

theorem nextIpcRequestId_reuse:
  "idOfCall (2 ^ 53 + 1) = idOfCall (2 ^ 53) \<and> idOfCall (2 ^ 53 + 1) = 2 ^ 53"
  using idOfCall_eq [of "2 ^ 53 + 1"] idOfCall_eq [of "2 ^ 53"] by simp

subsection \<open>The call correlator\<close>

lemma distinct_map_remove1:
  "distinct (map f xs) \<Longrightarrow> distinct (map f (remove1 x xs))"
  by (induction xs) (auto dest: notin_set_remove1 simp: image_iff)

lemma map_remove1_removeAll:
  "distinct (map f xs) \<Longrightarrow> x \<in> set xs \<Longrightarrow> map f (remove1 x xs) = removeAll (f x) (map f xs)"
proof (induction xs)
  case Nil
  then show ?case by simp
next
  case (Cons y ys)
  show ?case
  proof (cases "x = y")
    case True
    with Cons.prems have "f y \<notin> set (map f ys)" by simp
    with True show ?thesis by (simp add: removeAll_id)
  next
    case False
    with Cons.prems have "x \<in> set ys" by simp
    with Cons.prems have "f y \<noteq> f x" by (auto simp: image_iff)
    with Cons False \<open>x \<in> set ys\<close> show ?thesis by simp
  qed
qed

lemma codeSettle_expected:
  "(if isError then (if length args = 1 then Reject (hd args) else Reject (JArr args))
    else (if length args = 1 then Resolve (hd args) else Resolve (JArr args))) =
   expectedSettle isError args"
  by (cases args; cases "tl args") auto

lemma logDebug_fields:
  "promises (logDebug xs s) = promises s" "heap (logDebug xs s) = heap s"
  by (simp_all add: logDebug_def)

lemma callback_found:
  assumes "find (\<lambda>p. p_id p = i) (promises s) = Some p"
  shows "fst (ipcPromiseCallback i isError args s) = Inr ()"
    and "promises (snd (ipcPromiseCallback i isError args s)) = remove1 p (promises s)"
    and "heap (snd (ipcPromiseCallback i isError args s)) =
           (heap s)[p_promise p := heap s ! p_promise p @ [expectedSettle isError args]]"
proof -
  from findIndex_find [OF assms]
  have a: "findIndex (\<lambda>p. p_id p = i) (promises s) \<noteq> - 1"
    and b: "at_index (promises s) (findIndex (\<lambda>p. p_id p = i) (promises s)) = Some p"
    and c: "splice1 (findIndex (\<lambda>p. p_id p = i) (promises s)) (promises s) =
              remove1 p (promises s)"
    by simp_all
  show "fst (ipcPromiseCallback i isError args s) = Inr ()"
    unfolding ipcPromiseCallback_def Let_def using a b
    by (simp add: callResolver_def logDebug_fields)
  show "promises (snd (ipcPromiseCallback i isError args s)) = remove1 p (promises s)"
    unfolding ipcPromiseCallback_def Let_def using a b c
    by (simp add: callResolver_def settlePromise_def logDebug_fields)
  show "heap (snd (ipcPromiseCallback i isError args s)) =
           (heap s)[p_promise p := heap s ! p_promise p @ [expectedSettle isError args]]"
    unfolding ipcPromiseCallback_def Let_def using a b
    by (simp add: callResolver_def settlePromise_def logDebug_fields
        codeSettle_expected [symmetric])
qed

lemma expectedCalls_Issue: "expectedCalls j (Issue i # ops) = expectedCalls j ops"
  by (simp add: expectedCalls_def)

lemma expectedCalls_Complete:
  "expectedCalls j (Complete i isError args # ops) =
     (if i = j then [expectedSettle isError args] else expectedCalls j ops)"
  by (simp add: expectedCalls_def)

lemma appendPromise_simps:
  "fst (appendPromise i s) = length (heap s)"
  "promises (snd (appendPromise i s)) = promises s @ [\<lparr>p_id = i, p_promise = length (heap s)\<rparr>]"
  "heap (snd (appendPromise i s)) = heap s @ [[]]"
  by (simp_all add: appendPromise_def Let_def)

lemma run_general:
  "pendingInv s \<Longrightarrow> wellSequenced (map p_id (promises s)) ops \<Longrightarrow>
   \<exists>s'. run ops s = (Inr (issueResults (length (heap s)) ops), s') \<and>
        length (heap s') = length (heap s) + numIssues ops \<and>
        (\<forall>p \<in> set (promises s).
            heap s' ! p_promise p = heap s ! p_promise p @ expectedCalls (p_id p) ops) \<and>
        (\<forall>h < length (heap s). h \<notin> p_promise ` set (promises s) \<longrightarrow> heap s' ! h = heap s ! h) \<and>
        drop (length (heap s)) (heap s') = expectedHeap ops"
proof (induction ops arbitrary: s)
  case Nil
  then show ?case by (simp add: expectedCalls_def)
next
  case (Cons op ops)
  from Cons.prems(1) have di: "distinct (map p_id (promises s))"
    and dp: "distinct (map p_promise (promises s))"
    and bd: "\<And>p. p \<in> set (promises s) \<Longrightarrow> p_promise p < length (heap s)"
    by (simp_all add: pendingInv_def)
  show ?case
  proof (cases op)
    case (Issue i)
    let ?n = "length (heap s)"
    let ?s1 = "snd (appendPromise i s)"
    from Cons.prems(2) Issue have fresh: "i \<notin> p_id ` set (promises s)"
      and ws: "wellSequenced (map p_id (promises s) @ [i]) ops" by simp_all
    have nofresh: "?n \<notin> p_promise ` set (promises s)" using bd by fastforce
    have inv1: "pendingInv ?s1"
      using di dp fresh nofresh bd
      by (auto simp: pendingInv_def appendPromise_simps less_Suc_eq)
    have ws1: "wellSequenced (map p_id (promises ?s1)) ops"
      using ws by (simp add: appendPromise_simps)
    from Cons.IH [OF inv1 ws1] obtain s' where
      r: "run ops ?s1 = (Inr (issueResults (length (heap ?s1)) ops), s')"
      and l: "length (heap s') = length (heap ?s1) + numIssues ops"
      and a: "\<And>p. p \<in> set (promises ?s1) \<Longrightarrow>
            heap s' ! p_promise p = heap ?s1 ! p_promise p @ expectedCalls (p_id p) ops"
      and b: "\<And>h. h < length (heap ?s1) \<Longrightarrow> h \<notin> p_promise ` set (promises ?s1) \<Longrightarrow>
            heap s' ! h = heap ?s1 ! h"
      and d: "drop (length (heap ?s1)) (heap s') = expectedHeap ops"
      by blast
    have r': "run (op # ops) s = (Inr (issueResults ?n (op # ops)), s')"
      using r Issue by (simp add: split_beta appendPromise_simps)
    have l': "length (heap s') = ?n + numIssues (op # ops)"
      using l Issue by (simp add: appendPromise_simps)
    have a': "heap s' ! p_promise p = heap s ! p_promise p @ expectedCalls (p_id p) (op # ops)"
      if "p \<in> set (promises s)" for p
      using a [of p] that bd [OF that] Issue
      by (simp add: appendPromise_simps nth_append expectedCalls_Issue)
    have b': "heap s' ! h = heap s ! h"
      if "h < ?n" "h \<notin> p_promise ` set (promises s)" for h
      using b [of h] that by (auto simp: appendPromise_simps nth_append)
    have new: "heap s' ! ?n = expectedCalls i ops"
      using a [of "\<lparr>p_id = i, p_promise = ?n\<rparr>"] by (simp add: appendPromise_simps)
    have "?n < length (heap s')" using l by (simp add: appendPromise_simps)
    then have "drop ?n (heap s') = heap s' ! ?n # drop (Suc ?n) (heap s')"
      by (simp add: Cons_nth_drop_Suc)
    with new d Issue have d': "drop ?n (heap s') = expectedHeap (op # ops)"
      by (simp add: appendPromise_simps)
    from r' l' a' b' d' show ?thesis by blast
  next
    case (Complete i isError args)
    let ?n = "length (heap s)"
    let ?s1 = "snd (ipcPromiseCallback i isError args s)"
    from Cons.prems(2) Complete have mem: "i \<in> p_id ` set (promises s)"
      and ws: "wellSequenced (removeAll i (map p_id (promises s))) ops" by simp_all
    from mem obtain p where f: "find (\<lambda>p. p_id p = i) (promises s) = Some p"
      and pin: "p \<in> set (promises s)" and pid: "p_id p = i"
      by (rule find_first_key)
    note cb = callback_found [OF f, of isError args]
    have set1: "set (promises ?s1) = set (promises s) - {p}"
      using di by (simp add: cb(2) distinct_map)
    have inv1: "pendingInv ?s1"
      using di dp bd
      by (auto simp: pendingInv_def cb distinct_map_remove1 dest: notin_set_remove1)
    have "map p_id (promises ?s1) = removeAll i (map p_id (promises s))"
      using map_remove1_removeAll [OF di pin] pid by (simp add: cb(2))
    with ws have ws1: "wellSequenced (map p_id (promises ?s1)) ops" by simp
    have len1: "length (heap ?s1) = ?n" by (simp add: cb(3))
    from Cons.IH [OF inv1 ws1] obtain s' where
      r: "run ops ?s1 = (Inr (issueResults (length (heap ?s1)) ops), s')"
      and l: "length (heap s') = length (heap ?s1) + numIssues ops"
      and a: "\<And>q. q \<in> set (promises ?s1) \<Longrightarrow>
            heap s' ! p_promise q = heap ?s1 ! p_promise q @ expectedCalls (p_id q) ops"
      and b: "\<And>h. h < length (heap ?s1) \<Longrightarrow> h \<notin> p_promise ` set (promises ?s1) \<Longrightarrow>
            heap s' ! h = heap ?s1 ! h"
      and d: "drop (length (heap ?s1)) (heap s') = expectedHeap ops"
      by blast
    have r': "run (op # ops) s = (Inr (issueResults ?n (op # ops)), s')"
      using r Complete cb(1) len1 by (simp add: split_beta split: prod.splits sum.splits)
    have l': "length (heap s') = ?n + numIssues (op # ops)"
      using l Complete len1 by simp
    have gone: "p_promise p \<notin> p_promise ` set (promises ?s1)"
      using distinct_map_eqD [OF dp _ pin] by (auto simp: set1)
    have a': "heap s' ! p_promise q = heap s ! p_promise q @ expectedCalls (p_id q) (op # ops)"
      if q: "q \<in> set (promises s)" for q
    proof (cases "q = p")
      case True
      have "heap s' ! p_promise p = heap ?s1 ! p_promise p"
        using b [of "p_promise p"] gone bd [OF pin] len1 by simp
      with True pid Complete bd [OF pin] show ?thesis
        by (simp add: cb(3) expectedCalls_Complete)
    next
      case False
      with q have q1: "q \<in> set (promises ?s1)" by (simp add: set1)
      from False q have "p_promise q \<noteq> p_promise p" "p_id q \<noteq> i"
        using distinct_map_eqD [OF dp q pin] distinct_map_eqD [OF di q pin] pid by auto
      with a [OF q1] Complete show ?thesis
        by (simp add: cb(3) expectedCalls_Complete)
    qed
    have b': "heap s' ! h = heap s ! h"
      if "h < ?n" "h \<notin> p_promise ` set (promises s)" for h
    proof -
      from that pin have "h \<noteq> p_promise p" by auto
      moreover from that have "h \<notin> p_promise ` set (promises ?s1)" by (auto simp: set1)
      ultimately show ?thesis using b [of h] that len1 by (simp add: cb(3))
    qed
    from d Complete len1 have d': "drop ?n (heap s') = expectedHeap (op # ops)" by simp
    from r' l' a' b' d' show ?thesis by blast
  qed
qed

lemma issue_index:
  "k < length ops \<Longrightarrow> ops ! k = Issue i \<Longrightarrow>
     issueResults n ops ! k = Some (n + numIssues (take k ops)) \<and>
     numIssues (take k ops) < numIssues ops \<and>
     expectedHeap ops ! numIssues (take k ops) = expectedCalls i (drop (Suc k) ops)"
proof (induction ops arbitrary: k n)
  case Nil
  then show ?case by simp
next
  case (Cons op ops)
  show ?case
  proof (cases k)
    case 0
    with Cons.prems show ?thesis by simp
  next
    case (Suc j)
    with Cons.prems have "j < length ops" "ops ! j = Issue i" by simp_all
    from Cons.IH [OF this] Suc show ?thesis by (cases op) simp_all
  qed
qed

lemma length_issueResults: "length (issueResults n ops) = length ops"
  by (induction n ops rule: issueResults.induct) simp_all

lemma issueResults_handles:
  "List.map_filter (\<lambda>r. r) (issueResults n ops) = [n ..< n + numIssues ops]"
  by (induction n ops rule: issueResults.induct)
    (simp_all add: List.map_filter_simps upt_conv_Cons)

text \<open>
  C1. In every sequence of \<open>issue\<close>/\<open>complete\<close> operations on a fresh correlator in
  which an id is issued only while not pending and completed only while pending, no
  operation throws, every \<open>issue\<close> returns a promise of its own, and at the end the
  promise returned by the \<open>k\<close>-th operation \<open>Issue i\<close> has received exactly one call
  of its resolving functions if a \<open>Complete i\<close> follows (in whatever order the responses
  arrive), and none otherwise. That call is the one the specification asks for from the
  first \<open>Complete i\<close> that follows: \<open>resolve\<close>, or \<open>reject\<close> when \<open>isError\<close>, with the
  single argument, or with the whole ordered list when there is not exactly one.
\<close>

theorem correlator_settles_each_handle_once:
  assumes "wellSequenced [] ops"
  shows "\<exists>rs s. run ops constructor = (Inr rs, s) \<and> length rs = length ops \<and>
           distinct (List.map_filter (\<lambda>r. r) rs) \<and>
           (\<forall>k < length ops. \<forall>i. ops ! k = Issue i \<longrightarrow>
              (\<exists>h. rs ! k = Some h \<and> h < length (heap s) \<and>
                   heap s ! h =
                     (case firstComplete i (drop (Suc k) ops) of
                        None \<Rightarrow> []
                      | Some (isError, args) \<Rightarrow> [expectedSettle isError args])))"
proof -
  have inv: "pendingInv constructor" by (simp add: pendingInv_def constructor_def)
  have ws: "wellSequenced (map p_id (promises constructor)) ops"
    using assms by (simp add: constructor_def)
  from run_general [OF inv ws] obtain s where
    r: "run ops constructor = (Inr (issueResults 0 ops), s)"
    and l: "length (heap s) = numIssues ops"
    and d: "heap s = expectedHeap ops"
    by (auto simp: constructor_def)
  have "\<exists>h. issueResults 0 ops ! k = Some h \<and> h < length (heap s) \<and>
            heap s ! h = (case firstComplete i (drop (Suc k) ops) of
                        None \<Rightarrow> []
                      | Some (isError, args) \<Rightarrow> [expectedSettle isError args])"
    if "k < length ops" "ops ! k = Issue i" for k i
    using issue_index [OF that, of 0] l d by (simp add: expectedCalls_def)
  with r show ?thesis
    by (simp add: length_issueResults issueResults_handles)
qed

theorem correlator_settles_each_handle_once_witness:
  "wellSequenced [] exampleOps \<and>
   fst (run exampleOps constructor) = Inr [Some 0, Some 1, Some 2, None, None, None] \<and>
   heap (snd (run exampleOps constructor)) =
     [[Reject (JArr [JStr ''a'', JStr ''b''])], [Resolve (JNum 7)], [Resolve (JStr ''c'')]]"
  using correlator_settles_each_handle_once [of exampleOps]
  by (simp add: exampleOps_def constructor_def appendPromise_def ipcPromiseCallback_def Let_def
      logDebug_def callResolver_def settlePromise_def at_index_def splice1_def)

text \<open>
  C2. In every state, \<open>complete\<close> with an id that no pending call carries throws
  \<open>Error('Promise not found')\<close>. The state is as before but for two lines of
  log: the pending calls are unchanged and no promise has been touched.
\<close>

theorem complete_unregistered_raises:
  assumes "ident \<notin> p_id ` set (promises s)"
  shows "ipcPromiseCallback ident isError args s =
           (Inl (Error ''Promise not found''),
            s\<lparr>logged := logged s @
               [LogDebug [JStr ''Received IPC response for id'', JNum (int ident),
                          JStr '', is error? '', JBool isError, JArr args],
                LogError [JStr ''IPC promise for id'', JNum (int ident), JStr '' not found'']]\<rparr>) \<and>
         promises (snd (ipcPromiseCallback ident isError args s)) = promises s \<and>
         heap (snd (ipcPromiseCallback ident isError args s)) = heap s"
proof -
  from assms have "findIndex (\<lambda>p. p_id p = ident) (promises s) = - 1"
    by (auto simp: findIndex_none)
  then show ?thesis
    by (simp add: ipcPromiseCallback_def Let_def logDebug_def logError_def)
qed

theorem complete_unregistered_raises_witness:
  "(7::nat) \<notin> p_id ` set (promises (snd (appendPromise 3 constructor))) \<and>
   fst (ipcPromiseCallback 7 False [JNum 1] (snd (appendPromise 3 constructor)))
     = Inl (Error ''Promise not found'') \<and>
   promises (snd (ipcPromiseCallback 7 False [JNum 1] (snd (appendPromise 3 constructor))))
     = [\<lparr>p_id = 3, p_promise = 0\<rparr>]"
  using complete_unregistered_raises [of 7 "snd (appendPromise 3 constructor)" False "[JNum 1]"]
  by (simp add: appendPromise_def constructor_def Let_def)

text \<open>
  C10. When \<open>complete\<close> arrives for a pending id with no trailing argument, the promise of
  the pending call is called with the empty array: \<open>resolve([])\<close>, or \<open>reject([])\<close> when
  \<open>isError\<close>; a promise that was pending is then fulfilled, or rejected, with \<open>[]\<close>.
\<close>

theorem complete_without_arguments:
  assumes "find (\<lambda>p. p_id p = ident) (promises s) = Some p"
      and "p_promise p < length (heap s)"
      and "heap s ! p_promise p = []"
  shows "fst (ipcPromiseCallback ident isError [] s) = Inr () \<and>
         heap (snd (ipcPromiseCallback ident isError [] s)) ! p_promise p =
           [if isError then Reject (JArr []) else Resolve (JArr [])] \<and>
         stateOf (heap (snd (ipcPromiseCallback ident isError [] s)) ! p_promise p) =
           (if isError then Rejected (JArr []) else Fulfilled (JArr []))"
  using callback_found [OF assms(1), of isError "[]"] assms(2,3) by simp

theorem complete_without_arguments_witness:
  "find (\<lambda>p. p_id p = 3) (promises (snd (appendPromise 3 constructor)))
      = Some \<lparr>p_id = 3, p_promise = 0\<rparr> \<and>
   heap (snd (ipcPromiseCallback 3 True [] (snd (appendPromise 3 constructor)))) ! 0
      = [Reject (JArr [])] \<and>
   heap (snd (ipcPromiseCallback 3 False [] (snd (appendPromise 3 constructor)))) ! 0
      = [Resolve (JArr [])]"
  using complete_without_arguments [of 3 "snd (appendPromise 3 constructor)"
      "\<lparr>p_id = 3, p_promise = 0\<rparr>" True]
    complete_without_arguments [of 3 "snd (appendPromise 3 constructor)"
      "\<lparr>p_id = 3, p_promise = 0\<rparr>" False]
  by (simp add: appendPromise_def constructor_def Let_def)

subsection \<open>The debounce registry\<close>

lemma filter_corr:assumes "map (\<lambda>d. (d_name d, d_id d)) ds = map (\<lambda>t. (t_name t, t_id t)) ts"
      and "\<forall>t \<in> set ts. (t_name t \<in> S) = (\<not> R t)"
  shows "map (\<lambda>d. (d_name d, d_id d)) (filter (\<lambda>d. d_name d \<notin> S) ds) =
         map (\<lambda>t. (t_name t, t_id t)) (filter R ts)"
proof -
  from assms(1) have "length ds = length ts" by (rule map_eq_imp_length_eq)
  then show ?thesis using assms
    by (induction ds ts rule: list_induct2) auto
qed

lemma inv_names:
  assumes "debounceInv s"
  shows "map d_name (debouncers s) = map t_name (timers s)"
    and "map d_id (debouncers s) = map t_id (timers s)"
proof -
  from assms have e: "map (\<lambda>d. (d_name d, d_id d)) (debouncers s) =
      map (\<lambda>t. (t_name t, t_id t)) (timers s)" by (simp add: debounceInv_def)
  from arg_cong [OF e, of "map fst"] show "map d_name (debouncers s) = map t_name (timers s)"
    by (simp add: comp_def)
  from arg_cong [OF e, of "map snd"] show "map d_id (debouncers s) = map t_id (timers s)"
    by (simp add: comp_def)
qed

lemma fireTimer_found:
  assumes "distinct (map d_name (debouncers s))" "t_name t \<in> d_name ` set (debouncers s)"
  shows "fireTimer t s =
           s\<lparr>debouncers := filter (\<lambda>d. d_name d \<noteq> t_name t) (debouncers s),
             invoked := invoked s @
               [\<lparr>i_name = t_name t, i_callback = t_callback t, i_time = clock s\<rparr>]\<rparr>"
  using splice_found(2) [OF assms] by (simp add: fireTimer_def debounceIndex_def Let_def)

lemma fold_fireTimer:
  "distinct (map d_name (debouncers s)) \<Longrightarrow> distinct (map t_name D) \<Longrightarrow>
   t_name ` set D \<subseteq> d_name ` set (debouncers s) \<Longrightarrow>
   fold fireTimer D s =
     s\<lparr>debouncers := filter (\<lambda>d. d_name d \<notin> t_name ` set D) (debouncers s),
       invoked := invoked s @
         map (\<lambda>t. \<lparr>i_name = t_name t, i_callback = t_callback t, i_time = clock s\<rparr>) D\<rparr>"
proof (induction D arbitrary: s)
  case Nil
  then show ?case by simp
next
  case (Cons t D)
  let ?s1 = "fireTimer t s"
  from Cons.prems have ft: "?s1 =
           s\<lparr>debouncers := filter (\<lambda>d. d_name d \<noteq> t_name t) (debouncers s),
             invoked := invoked s @
               [\<lparr>i_name = t_name t, i_callback = t_callback t, i_time = clock s\<rparr>]\<rparr>"
    by (intro fireTimer_found) auto
  have d1: "distinct (map d_name (debouncers ?s1))"
    using Cons.prems(1) by (simp add: ft distinct_map_filter)
  have d2: "distinct (map t_name D)" using Cons.prems(2) by simp
  have sub: "t_name ` set D \<subseteq> d_name ` set (debouncers ?s1)"
  proof
    fix n assume n: "n \<in> t_name ` set D"
    from Cons.prems(2) have "t_name t \<notin> t_name ` set D" by simp
    with n have "n \<noteq> t_name t" by blast
    moreover from n Cons.prems(3) obtain d where "d \<in> set (debouncers s)" "d_name d = n"
      by auto
    ultimately show "n \<in> d_name ` set (debouncers ?s1)" by (auto simp: ft image_iff)
  qed
  have "filter (\<lambda>d. d_name d \<notin> t_name ` set D) (filter (\<lambda>d. d_name d \<noteq> t_name t) (debouncers s))
      = filter (\<lambda>d. d_name d \<notin> t_name ` set (t # D)) (debouncers s)"
    by (auto intro: filter_cong)
  with Cons.IH [OF d1 d2 sub] show ?case by (simp add: ft)
qed

lemma tick_eq:
  assumes "debounceInv s"
  shows "tick s =
     s\<lparr>clock := Suc (clock s),
       timers := filter (\<lambda>t. \<not> t_due t \<le> Suc (clock s)) (timers s),
       debouncers := filter (\<lambda>d. d_name d \<notin>
           t_name ` set (filter (\<lambda>t. t_due t \<le> Suc (clock s)) (timers s))) (debouncers s),
       invoked := invoked s @
         map (\<lambda>t. \<lparr>i_name = t_name t, i_callback = t_callback t, i_time = Suc (clock s)\<rparr>)
           (filter (\<lambda>t. t_due t \<le> Suc (clock s)) (timers s))\<rparr>"
proof -
  let ?D = "filter (\<lambda>t. t_due t \<le> Suc (clock s)) (timers s)"
  let ?s2 = "s\<lparr>clock := Suc (clock s), timers := filter (\<lambda>t. \<not> t_due t \<le> Suc (clock s)) (timers s)\<rparr>"
  from assms have dn: "distinct (map d_name (debouncers s))" by (simp add: debounceInv_def)
  note nm = inv_names(1) [OF assms]
  have a: "distinct (map d_name (debouncers ?s2))" using dn by simp
  have b: "distinct (map t_name ?D)" using dn nm by (simp add: distinct_map_filter)
  have "t_name ` set (timers s) = d_name ` set (debouncers s)"
    using arg_cong [OF nm, of set] by simp
  then have c: "t_name ` set ?D \<subseteq> d_name ` set (debouncers ?s2)" by auto
  have "tick s = fold fireTimer ?D ?s2" by (simp add: tick_def Let_def)
  with fold_fireTimer [OF a b c] show ?thesis by simp
qed

lemma tick_inv:
  assumes "debounceInv s"
  shows "debounceInv (tick s)"
proof -
  let ?R = "\<lambda>t. \<not> t_due t \<le> Suc (clock s)"
  let ?S = "t_name ` set (filter (\<lambda>t. t_due t \<le> Suc (clock s)) (timers s))"
  from assms have dn: "distinct (map d_name (debouncers s))"
    and di: "distinct (map t_id (timers s))"
    and bd: "\<forall>t \<in> set (timers s). t_id t < timerSeq s \<and> clock s < t_due t"
    and co: "map (\<lambda>d. (d_name d, d_id d)) (debouncers s) = map (\<lambda>t. (t_name t, t_id t)) (timers s)"
    by (simp_all add: debounceInv_def)
  have dt: "distinct (map t_name (timers s))" using dn inv_names(1) [OF assms] by simp
  have "\<forall>t \<in> set (timers s). (t_name t \<in> ?S) = (\<not> ?R t)"
    using distinct_map_eqD [OF dt] by auto
  from filter_corr [OF co this]
  have co': "map (\<lambda>d. (d_name d, d_id d)) (filter (\<lambda>d. d_name d \<notin> ?S) (debouncers s)) =
         map (\<lambda>t. (t_name t, t_id t)) (filter ?R (timers s))" .
  show ?thesis
    unfolding tick_eq [OF assms] debounceInv_def
    using dn di bd co' by (auto simp: distinct_map_filter)
qed

lemma debounce_inv:
  assumes "debounceInv s"
  shows "debounceInv (debounce name callback time s)"
proof (cases "debounceIndex name s = - 1")
  case False
  with assms show ?thesis by (simp add: debounce_def)
next
  case True
  then have fresh: "name \<notin> d_name ` set (debouncers s)"
    by (auto simp: debounceIndex_def findIndex_none)
  have "timerSeq s \<notin> t_id ` set (timers s)" using assms by (auto simp: debounceInv_def)
  moreover have "0 < timerDelay time" by (simp add: timerDelay_def)
  ultimately show ?thesis using assms True fresh
    by (auto simp: debounce_def setTimeout_def Let_def debounceInv_def less_Suc_eq)
qed

lemma cancelDebounce_inv:
  assumes "debounceInv s"
  shows "debounceInv (snd (cancelDebounce name s))"
    and "fst (cancelDebounce name s) = Inr ()"
proof -
  from assms have dn: "distinct (map d_name (debouncers s))"
    and di: "distinct (map t_id (timers s))"
    and bd: "\<forall>t \<in> set (timers s). t_id t < timerSeq s \<and> clock s < t_due t"
    and co: "map (\<lambda>d. (d_name d, d_id d)) (debouncers s) = map (\<lambda>t. (t_name t, t_id t)) (timers s)"
    by (simp_all add: debounceInv_def)
  have "debounceInv (snd (cancelDebounce name s)) \<and> fst (cancelDebounce name s) = Inr ()"
  proof (cases "debounceIndex name s = - 1")
    case True
    with assms show ?thesis by (simp add: cancelDebounce_def)
  next
    case False
    then have mem: "name \<in> d_name ` set (debouncers s)"
      by (auto simp: debounceIndex_def findIndex_none)
    from splice_found [OF dn mem] obtain d where
      d: "d \<in> set (debouncers s)" "d_name d = name"
        "at_index (debouncers s) (debounceIndex name s) = Some d"
      and sp: "splice1 (debounceIndex name s) (debouncers s) =
        filter (\<lambda>x. d_name x \<noteq> name) (debouncers s)"
      by (auto simp: debounceIndex_def)
    have eq: "snd (cancelDebounce name s) =
        s\<lparr>timers := filter (\<lambda>t. t_id t \<noteq> d_id d) (timers s),
          debouncers := filter (\<lambda>x. d_name x \<notin> {name}) (debouncers s)\<rparr>"
      and ok: "fst (cancelDebounce name s) = Inr ()"
      using False d(3) sp by (simp_all add: cancelDebounce_def Let_def clearTimeout_def)
    from d(1,2) have "(name, d_id d) \<in> set (map (\<lambda>d. (d_name d, d_id d)) (debouncers s))"
      by force
    with co obtain t0 where t0: "t0 \<in> set (timers s)" "t_name t0 = name" "t_id t0 = d_id d"
      by auto
    have dt: "distinct (map t_name (timers s))" using dn inv_names(1) [OF assms] by simp
    have "\<forall>t \<in> set (timers s). (t_name t \<in> {name}) = (\<not> t_id t \<noteq> d_id d)"
      using distinct_map_eqD [OF dt _ t0(1)] distinct_map_eqD [OF di _ t0(1)] t0(2,3) by auto
    from filter_corr [OF co this]
    have co': "map (\<lambda>d. (d_name d, d_id d)) (filter (\<lambda>d. d_name d \<notin> {name}) (debouncers s)) =
         map (\<lambda>t. (t_name t, t_id t)) (filter (\<lambda>t. t_id t \<noteq> d_id d) (timers s))" .
    show ?thesis
      unfolding eq debounceInv_def using dn di bd co' ok
      by (auto simp: distinct_map_filter)
  qed
  then show "debounceInv (snd (cancelDebounce name s))"
    and "fst (cancelDebounce name s) = Inr ()" by simp_all
qed

lemma constructor_inv: "debounceInv constructor"
  by (simp add: debounceInv_def constructor_def)

lemma baseStep_inv: "debounceInv s \<Longrightarrow> debounceInv (baseStep x s)"
  by (cases x) (simp_all add: debounce_inv cancelDebounce_inv tick_inv)

lemma runBase_inv: "debounceInv s \<Longrightarrow> debounceInv (runBase xs s)"
  by (induction xs arbitrary: s) (simp_all add: baseStep_inv)

lemma advance_add: "advance (m + k) s = advance k (advance m s)"
  by (induction m arbitrary: s) simp_all

lemma advance_inv: "debounceInv s \<Longrightarrow> debounceInv (advance m s)"
  by (induction m arbitrary: s) (simp_all add: tick_inv)

lemma filter_key_single:
  assumes "distinct (map f xs)" "x \<in> set xs"
  shows "filter (\<lambda>y. f y = f x) xs = [x]"
  using assms
proof (induction xs)
  case Nil
  then show ?case by simp
next
  case (Cons y ys)
  show ?case
  proof (cases "y = x")
    case True
    with Cons.prems(1) have "\<forall>z \<in> set ys. f z \<noteq> f x" by (auto simp: image_iff)
    then have "filter (\<lambda>y. f y = f x) ys = []" by (simp add: filter_empty_conv)
    with True show ?thesis by simp
  next
    case False
    with Cons.prems have x: "x \<in> set ys" by simp
    with Cons.prems(1) have "f y \<noteq> f x" by (auto simp: image_iff)
    with Cons.IH x Cons.prems(1) show ?thesis by simp
  qed
qed

lemma distinct_key_count:
  "distinct (map f xs) \<Longrightarrow> length (filter (\<lambda>x. f x = a) xs) \<le> 1"
proof (cases "a \<in> f ` set xs")
  case True
  assume d: "distinct (map f xs)"
  from True obtain x where "x \<in> set xs" "f x = a" by auto
  with filter_key_single [OF d, of x] show ?thesis by simp
next
  case False
  then have "filter (\<lambda>x. f x = a) xs = []" by (auto simp: filter_empty_conv)
  then show ?thesis by simp
qed

lemma tick_invocations:
  assumes "debounceInv s"
  shows "invocationsOf n (tick s) = invocationsOf n s @
     map (\<lambda>t. \<lparr>i_name = t_name t, i_callback = t_callback t, i_time = Suc (clock s)\<rparr>)
       (filter (\<lambda>t. t_due t \<le> Suc (clock s)) (filter (\<lambda>t. t_name t = n) (timers s)))"
proof -
  have m: "filter (\<lambda>i. i_name i = n)
          (map (\<lambda>t. \<lparr>i_name = t_name t, i_callback = t_callback t, i_time = Suc (clock s)\<rparr>) ts) =
        map (\<lambda>t. \<lparr>i_name = t_name t, i_callback = t_callback t, i_time = Suc (clock s)\<rparr>)
          (filter (\<lambda>t. t_name t = n) ts)" for ts
    by (induction ts) simp_all
  show ?thesis
    unfolding tick_eq [OF assms] invocationsOf_def
    by (simp add: m conj_commute)
qed

lemma tick_fields:
  assumes "debounceInv s"
  shows "clock (tick s) = Suc (clock s)"
    and "timers (tick s) = filter (\<lambda>t. \<not> t_due t \<le> Suc (clock s)) (timers s)"
  unfolding tick_eq [OF assms] by simp_all

lemma advance_silent:
  "debounceInv s \<Longrightarrow> n \<notin> t_name ` set (timers s) \<Longrightarrow>
     invocationsOf n (advance m s) = invocationsOf n s"
proof (induction m arbitrary: s)
  case 0
  show ?case by simp
next
  case (Suc m)
  from Suc.prems(2) have e: "filter (\<lambda>t. t_name t = n) (timers s) = []"
    by (auto simp: filter_empty_conv)
  have "n \<notin> t_name ` set (timers (tick s))"
    using Suc.prems(2) by (auto simp: tick_fields [OF Suc.prems(1)])
  from Suc.IH [OF tick_inv [OF Suc.prems(1)] this] show ?case
    by (simp add: tick_invocations [OF Suc.prems(1)] e)
qed

lemma advance_fires_once:
  "debounceInv s \<Longrightarrow> t \<in> set (timers s) \<Longrightarrow>
     invocationsOf (t_name t) (advance m s) =
       invocationsOf (t_name t) s @
       (if t_due t \<le> clock s + m
        then [\<lparr>i_name = t_name t, i_callback = t_callback t, i_time = t_due t\<rparr>] else [])"
proof (induction m arbitrary: s)
  case 0
  then have "clock s < t_due t" by (auto simp: debounceInv_def)
  then show ?case by simp
next
  case (Suc m)
  note inv = Suc.prems(1)
  from inv have dn: "distinct (map t_name (timers s))"
    using inv_names(1) [OF inv] by (simp add: debounceInv_def)
  from inv Suc.prems(2) have later: "clock s < t_due t" by (auto simp: debounceInv_def)
  have one: "filter (\<lambda>u. t_name u = t_name t) (timers s) = [t]"
    by (rule filter_key_single [OF dn Suc.prems(2)])
  show ?case
  proof (cases "t_due t \<le> Suc (clock s)")
    case True
    with later have due: "t_due t = Suc (clock s)" by simp
    have fired: "invocationsOf (t_name t) (tick s) = invocationsOf (t_name t) s @
        [\<lparr>i_name = t_name t, i_callback = t_callback t, i_time = t_due t\<rparr>]"
      by (simp add: tick_invocations [OF inv] one due)
    have "t_name t \<notin> t_name ` set (timers (tick s))"
    proof
      assume "t_name t \<in> t_name ` set (timers (tick s))"
      then obtain u where u: "u \<in> set (timers s)" "\<not> t_due u \<le> Suc (clock s)" "t_name u = t_name t"
        by (auto simp: tick_fields [OF inv])
      from u(1,3) have "u \<in> set (filter (\<lambda>u. t_name u = t_name t) (timers s))" by simp
      then have "u = t" by (simp only: one) simp
      with u(2) True show False by simp
    qed
    from advance_silent [OF tick_inv [OF inv] this, of m] fired due show ?thesis by simp
  next
    case False
    then have t': "t \<in> set (timers (tick s))"
      using Suc.prems(2) by (simp add: tick_fields [OF inv])
    have quiet: "invocationsOf (t_name t) (tick s) = invocationsOf (t_name t) s"
      using False by (simp add: tick_invocations [OF inv] one)
    from Suc.IH [OF tick_inv [OF inv] t'] quiet show ?thesis
      by (simp add: tick_fields [OF inv])
  qed
qed

lemma advance_keeps:
  "debounceInv s \<Longrightarrow> t \<in> set (timers s) \<Longrightarrow> clock s + m < t_due t \<Longrightarrow>
     t \<in> set (timers (advance m s))"
proof (induction m arbitrary: s)
  case 0
  then show ?case by simp
next
  case (Suc m)
  have "t \<in> set (timers (tick s))"
    using Suc.prems(2,3) by (simp add: tick_fields [OF Suc.prems(1)])
  moreover have "clock (tick s) + m < t_due t"
    using Suc.prems(3) by (simp add: tick_fields [OF Suc.prems(1)])
  ultimately show ?case using Suc.IH [OF tick_inv [OF Suc.prems(1)]] by simp
qed

lemma live_index:
  assumes "debounceInv s" "t \<in> set (timers s)"
  shows "debounceIndex (t_name t) s \<noteq> - 1"
proof -
  from assms(2) have "t_name t \<in> set (map t_name (timers s))" by simp
  then have "t_name t \<in> set (map d_name (debouncers s))"
    by (simp only: inv_names(1) [OF assms(1)])
  then show ?thesis by (auto simp: debounceIndex_def findIndex_none)
qed

lemma debounce_fresh:
  assumes "debounceIndex name s = - 1"
  shows "debounce name callback time s =
     s\<lparr>timerSeq := Suc (timerSeq s),
       timers := timers s @ [\<lparr>t_id = timerSeq s, t_due = clock s + timerDelay time,
                              t_name = name, t_callback = callback\<rparr>],
       debouncers := debouncers s @ [\<lparr>d_name = name, d_id = timerSeq s\<rparr>]\<rparr>"
  using assms by (simp add: debounce_def setTimeout_def Let_def)

text \<open>
  C7. Take any state reached from a fresh object by \<open>debounce\<close>, \<open>cancelDebounce\<close>
  and clock ticks, in which no debouncer is named \<open>name\<close>. After a first
  \<open>debounce(name, callback1, time1)\<close>, a second \<open>debounce\<close> under the same name that
  comes before the first timer is due changes nothing, whatever its callback and delay;
  the invocations under that name are then the earlier ones followed, once the delay of
  the first call has passed, by exactly one invocation of the first callback, stamped
  with the due time of the first call. In every reachable state at most one debouncer
  carries a given name.
\<close>

theorem debounce_schedules_once:
  assumes "debounceIndex name (runBase ops constructor) = - 1"
      and "e < timerDelay time1"
  shows "debounce name callback2 time2
             (advance e (debounce name callback1 time1 (runBase ops constructor))) =
           advance e (debounce name callback1 time1 (runBase ops constructor)) \<and>
         invocationsOf name
             (advance k (debounce name callback2 time2
                (advance e (debounce name callback1 time1 (runBase ops constructor))))) =
           invocationsOf name (runBase ops constructor) @
           (if timerDelay time1 \<le> e + k
            then [\<lparr>i_name = name, i_callback = callback1,
                   i_time = clock (runBase ops constructor) + timerDelay time1\<rparr>]
            else []) \<and>
         length (filter (\<lambda>d. d_name d = name') (debouncers (runBase ops' constructor))) \<le> 1"
proof -
  let ?s = "runBase ops constructor"
  let ?s1 = "debounce name callback1 time1 ?s"
  let ?t = "\<lparr>t_id = timerSeq ?s, t_due = clock ?s + timerDelay time1,
             t_name = name, t_callback = callback1\<rparr>"
  have inv: "debounceInv ?s" by (rule runBase_inv [OF constructor_inv])
  then have inv1: "debounceInv ?s1" by (rule debounce_inv)
  have s1: "timers ?s1 = timers ?s @ [?t]" "clock ?s1 = clock ?s" "invoked ?s1 = invoked ?s"
    by (simp_all add: debounce_fresh [OF assms(1)])
  then have t1: "?t \<in> set (timers ?s1)" by simp
  have "clock ?s1 + e < t_due ?t" using assms(2) by (simp add: s1)
  from advance_keeps [OF inv1 t1 this] have "?t \<in> set (timers (advance e ?s1))" .
  from live_index [OF advance_inv [OF inv1] this]
  have live: "debounceIndex name (advance e ?s1) \<noteq> - 1" by simp
  then have noop: "debounce name callback2 time2 (advance e ?s1) = advance e ?s1"
    by (simp add: debounce_def)
  have "invocationsOf name (advance k (advance e ?s1)) =
      invocationsOf name ?s @
      (if timerDelay time1 \<le> e + k
       then [\<lparr>i_name = name, i_callback = callback1, i_time = clock ?s + timerDelay time1\<rparr>]
       else [])"
    using advance_fires_once [OF inv1 t1, of "e + k"]
    by (simp add: advance_add s1 invocationsOf_def)
  moreover have "length (filter (\<lambda>d. d_name d = name') (debouncers (runBase ops' constructor))) \<le> 1"
    using runBase_inv [OF constructor_inv, of ops']
    by (intro distinct_key_count) (simp add: debounceInv_def)
  ultimately show ?thesis using noop by simp
qed

theorem debounce_schedules_once_witness:
  "debounceIndex ''ajax-call'' (runBase [Debounce ''other'' 9 2, Tick] constructor) = - 1 \<and>
   (1::nat) < timerDelay 3 \<and>
   invocationsOf ''ajax-call''
     (advance 1 (debounce ''ajax-call'' 8 5
        (advance 1 (debounce ''ajax-call'' 7 3 (runBase [Debounce ''other'' 9 2, Tick] constructor))))) = [] \<and>
   invocationsOf ''ajax-call''
     (advance 2 (debounce ''ajax-call'' 8 5
        (advance 1 (debounce ''ajax-call'' 7 3 (runBase [Debounce ''other'' 9 2, Tick] constructor))))) =
     [\<lparr>i_name = ''ajax-call'', i_callback = 7, i_time = 4\<rparr>]"
  using debounce_schedules_once [of "''ajax-call''" "[Debounce ''other'' 9 2, Tick]" 1 3 8 5 7 1]
    debounce_schedules_once [of "''ajax-call''" "[Debounce ''other'' 9 2, Tick]" 1 3 8 5 7 2]
  by (simp add: debounceIndex_def debounce_def setTimeout_def constructor_def tick_def Let_def
      timerDelay_def fireTimer_def invocationsOf_def splice1_def)

section \<open>Verification: ArcInit\<close>

subsection \<open>Frames\<close>

lemma framedD:
  assumes "framed f"
  shows "stages (snd (f s)) = stages s" and "initConfig (snd (f s)) = initConfig s"
    and "\<exists>evs. trace (snd (f s)) = trace s @ evs"
  using assms by (simp_all add: framed_def)

lemma framed_returns: "framed (returns x)"
  by (simp add: framed_def returns_def)

lemma framed_throws: "framed (throws err)"
  by (simp add: framed_def throws_def)

lemma framed_effect: "framed (effect ev)"
  by (simp add: framed_def effect_def emit_def)

lemma framed_call: "framed (call target args outcome)"
  by (simp add: framed_def call_def emit_def)

lemma framed_appCall: "framed (appCall E name args)"
  by (simp add: framed_def appCall_def call_def emit_def)

lemma framed_setCompatibility: "framed (setCompatibility b)"
  by (simp add: framed_def setCompatibility_def)

lemma framed_loadPreferences: "framed (loadPreferences E)"
  by (simp add: framed_def loadPreferences_def emit_def)

lemma framed_andThen:
  assumes "framed f" "\<And>x. framed (g x)"
  shows "framed (andThen f g)"
  unfolding framed_def
proof (intro allI)
  fix s
  obtain r s1 where fs: "f s = (r, s1)" by (cases "f s")
  note f = framedD [OF assms(1), of s, unfolded fs, simplified]
  show "stages (snd (andThen f g s)) = stages s \<and> initConfig (snd (andThen f g s)) = initConfig s \<and>
          (\<exists>evs. trace (snd (andThen f g s)) = trace s @ evs)"
  proof (cases r)
    case (Inl err)
    with fs f show ?thesis by (simp add: andThen_def)
  next
    case (Inr x)
    note g = framedD [OF assms(2), of x s1]
    from Inr fs f g show ?thesis by (auto simp: andThen_def)
  qed
qed

lemma framed_tryCatch:
  assumes "framed f" "\<And>err. framed (h err)"
  shows "framed (tryCatch f h)"
  unfolding framed_def
proof (intro allI)
  fix s
  obtain r s1 where fs: "f s = (r, s1)" by (cases "f s")
  note f = framedD [OF assms(1), of s, unfolded fs, simplified]
  show "stages (snd (tryCatch f h s)) = stages s \<and> initConfig (snd (tryCatch f h s)) = initConfig s \<and>
          (\<exists>evs. trace (snd (tryCatch f h s)) = trace s @ evs)"
  proof (cases r)
    case (Inr x)
    with fs f show ?thesis by (simp add: tryCatch_def)
  next
    case (Inl err)
    note h = framedD [OF assms(2), of err s1]
    from Inl fs f h show ?thesis by (auto simp: tryCatch_def)
  qed
qed

lemma framed_detached: "framed f \<Longrightarrow> framed (detached f)"
  by (simp add: framed_def detached_def)


lemma framed_readMessage: "framed (readMessage err)"
  by (simp add: framed_def readMessage_def)

lemma framed_notifyCause: "framed (notifyCause E cause)"
proof -
  have "framed (andThen (readMessage cause) (\<lambda>m. appCall E ''notifyError'' [m]))"
    by (intro framed_andThen framed_readMessage framed_appCall)
  then show ?thesis
    by (simp add: framed_def notifyCause_def)
qed

lemmas framed_intros =
  framed_returns framed_throws framed_effect framed_call framed_appCall
  framed_setCompatibility framed_loadPreferences framed_andThen framed_tryCatch framed_detached
  framed_readMessage framed_notifyCause







lemma framed_handleGoogleDriveAction: "framed (handleGoogleDriveAction E act fileId)"
  unfolding handleGoogleDriveAction_def
  by (auto intro!: framed_intros)

lemma framed_handleDefaultProtocolActon: "framed (handleDefaultProtocolActon E args)"
  unfolding handleDefaultProtocolActon_def Let_def
  by (auto intro!: framed_intros framed_handleGoogleDriveAction)

lemma framed_removeLoader: "framed (removeLoader E)"
  unfolding removeLoader_def by (auto intro!: framed_intros)

lemma framed_sendTabsCount: "framed (sendTabsCount E callId)"
  unfolding sendTabsCount_def by (intro framed_intros)

lemma framed_activateTab: "framed (activateTab E callId tabId)"
  by (simp add: framed_def activateTab_def andThen_def effect_def emit_def)

lemma framed_getRequestData: "framed (getRequestData E callId tabId)"
  by (simp add: framed_def getRequestData_def effect_def emit_def)

lemma framed_toggleMenuWindow: "framed (toggleMenuWindow E)"
  by (simp add: framed_def toggleMenuWindow_def Let_def andThen_def appCall_def call_def
      emit_def returns_def split: sum.splits)

lemma framed_processExternalFile: "framed (processExternalFile E filePath)"
  unfolding processExternalFile_def by (intro framed_intros)

lemma framed_exportWorkspace: "framed (exportWorkspace E)"
  unfolding exportWorkspace_def by (intro framed_intros)

subsection \<open>The startup sequence\<close>











subsection \<open>The dispatchers\<close>

text \<open>
  C5. A command name outside the application-command vocabulary only logs the warning
  \<open>Unknown command\<close> with the name and the arguments; the dispatch returns normally.
\<close>

theorem unknown_command_warns:
  assumes "act \<notin> set applicationCommands"
  shows "commandHandler E act args s =
           (Inr (), s\<lparr>trace := trace s @ [ConsoleWarn [JStr ''Unknown command'', JStr act, JArr args]]\<rparr>)"
  using assms by (simp add: applicationCommands_def commandHandler_def effect_def emit_def)

theorem unknown_command_warns_witness:
  "''reload'' \<notin> set applicationCommands \<and>
   commandHandler quietEnv ''reload'' [JNum 1] newArcInit =
     (Inr (), newArcInit\<lparr>trace := [ConsoleWarn [JStr ''Unknown command'', JStr ''reload'', JArr [JNum 1]]]\<rparr>)"
  using unknown_command_warns [of "''reload''" quietEnv "[JNum 1]" newArcInit]
  by (simp add: applicationCommands_def newArcInit_def)

text \<open>
  C6. An action name outside the request-action vocabulary makes \<open>execRequestAction\<close>
  throw an error whose message ends with that exact name; nothing else happens.
\<close>

theorem unknown_request_action_throws:
  assumes "act \<notin> set requestActions"
  shows "execRequestAction E act args s = (Inl (Error (''Unrecognized action '' @ act)), s)"
  using assms by (simp add: requestActions_def execRequestAction_def throws_def)

theorem unknown_request_action_throws_witness:
  "''reload'' \<notin> set requestActions \<and>
   execRequestAction quietEnv ''reload'' [] newArcInit =
     (Inl (Error ''Unrecognized action reload''), newArcInit)"
  using unknown_request_action_throws [of "''reload''" quietEnv "[]" newArcInit]
  by (simp add: requestActions_def)

lemma firstEvent_appDo:
  "appPresent s \<Longrightarrow> firstEvent (appDo E name args) s = Some (Call (''app.'' @ name) args)"
  by (cases "appMethod E name args")
    (simp_all add: firstEvent_def appDo_def appCall_def call_def andThen_def emit_def returns_def)

lemma firstEvent_invoke:
  "(\<And>s'. \<exists>evs. trace (snd (body s')) = trace s' @ evs) \<Longrightarrow>
   firstEvent (invoke name args body) s = Some (Call (''this.'' @ name) args)"
proof -
  assume a: "\<And>s'. \<exists>evs. trace (snd (body s')) = trace s' @ evs"
  from a [of "emit (Call (''this.'' @ name) args) s"] obtain evs where
    "trace (snd (body (emit (Call (''this.'' @ name) args) s))) =
       trace s @ Call (''this.'' @ name) args # evs"
    by (auto simp: emit_def)
  then show ?thesis
    by (simp add: firstEvent_def invoke_def andThen_def effect_def)
qed

lemma firstEvent_invoke_framed:
  "framed body \<Longrightarrow> firstEvent (invoke name args body) s = Some (Call (''this.'' @ name) args)"
  by (rule firstEvent_invoke) (rule framedD(3))

lemma newEvents_appDo:
  "appPresent s \<Longrightarrow> newEvents (appDo E name args) s = [Call (''app.'' @ name) args]"
  by (cases "appMethod E name args")
    (simp_all add: newEvents_def appDo_def appCall_def call_def andThen_def emit_def returns_def)

lemma newEvents_invoke:
  assumes "framed body"
  shows "newEvents (invoke name args body) s =
     Call (''this.'' @ name) args # newEvents body (emit (Call (''this.'' @ name) args) s)"
proof -
  from framedD(3) [OF assms, of "emit (Call (''this.'' @ name) args) s"] obtain evs where
    "trace (snd (body (emit (Call (''this.'' @ name) args) s))) =
       trace (emit (Call (''this.'' @ name) args) s) @ evs"
    by blast
  then show ?thesis
    by (simp add: newEvents_def invoke_def andThen_def effect_def emit_def)
qed

lemma appPresent_emit: "appPresent (emit ev s) = appPresent s"
  by (simp add: emit_def)

lemma newEvents_sendTabsCount:
  "appPresent s \<Longrightarrow>
   newEvents (sendTabsCount E callId) s =
     Call ''app.getTabsCount'' [] #
     (case appMethod E ''getTabsCount'' [] of
        Inl err \<Rightarrow> []
      | Inr cnt \<Rightarrow> [SenderSend ''current-tabs-count'' [callId, JBool False, cnt]])"
  by (simp add: newEvents_def sendTabsCount_def appCall_def call_def andThen_def effect_def
      emit_def split: sum.splits)

lemma newEvents_activateTab:
  "appPresent s \<Longrightarrow>
   newEvents (activateTab E callId tabId) s =
     [SetProperty ''app.workspace.selected'' tabId,
      SenderSend ''tab-activated'' [callId, JBool False]]"
  by (simp add: newEvents_def activateTab_def andThen_def effect_def emit_def)

lemma newEvents_getRequestData:
  "appPresent s \<Longrightarrow>
   newEvents (getRequestData E callId tabId) s =
     [SenderSend ''request-data'' [callId, JBool False, activeRequest E tabId]]"
  by (simp add: newEvents_def getRequestData_def effect_def emit_def)

lemma newEvents_toggleMenuWindow:
  "appPresent s \<Longrightarrow> newEvents (toggleMenuWindow E) s = [Call ''app.requestUpdate'' []]"
  by (simp add: newEvents_def toggleMenuWindow_def Let_def andThen_def appCall_def call_def
      emit_def returns_def split: sum.splits)

lemma newEvents_processExternalFile:
  "appPresent s \<Longrightarrow>
   newEvents (detached (processExternalFile E filePath)) s =
     Call ''importPreprocessor.processFile'' [filePath] #
     (case processFile E filePath of
        Inr res \<Rightarrow> []
      | Inl cause \<Rightarrow>
          if nullish cause then []
          else Call ''app.notifyError'' [messageProp cause] #
               (case appMethod E ''notifyError'' [messageProp cause] of
                  Inl err \<Rightarrow> []
                | Inr res \<Rightarrow> [ConsoleError [errVal cause]]))"
  by (simp add: newEvents_def detached_def processExternalFile_def tryCatch_def call_def
      notifyCause_def readMessage_def appCall_def andThen_def effect_def emit_def returns_def
      split: sum.splits)

lemma newEvents_exportWorkspace:
  "appPresent s \<Longrightarrow>
   newEvents (detached (exportWorkspace E)) s =
     Call ''app.workspace.serializeWorkspace'' [] #
     (case appMethod E ''workspace.serializeWorkspace'' [] of
        Inl err \<Rightarrow> []
      | Inr workspace \<Rightarrow>
          [Call ''fs.exportFileData''
             [workspace, JStr ''application/json'', JStr ''arc-workspace.arc'']])"
  by (simp add: newEvents_def detached_def exportWorkspace_def call_def appCall_def andThen_def
      emit_def split: sum.splits)

text \<open>
  C8 as stated fails: \<open>show-settings\<close> with a trailing argument calls
  \<open>app.openSettings()\<close> without it; and a command that arrives before the application
  element is in the document reaches no handler at all, since \<open>this.app\<close> is
  \<open>null\<close>.
\<close>

theorem command_arguments_dropped:
  "trace (snd (commandHandler quietEnv ''show-settings'' [JStr ''x'']
      (newArcInit\<lparr>appPresent := True\<rparr>))) = [Call ''app.openSettings'' []] \<and>
   Call ''app.openSettings'' [JStr ''x''] \<notin>
     set (trace (snd (commandHandler quietEnv ''show-settings'' [JStr ''x'']
      (newArcInit\<lparr>appPresent := True\<rparr>)))) \<and>
   commandHandler quietEnv ''show-settings'' [JStr ''x''] newArcInit =
     (Inl (TypeError ''Cannot read properties of null''), newArcInit)"
  by (simp add: commandHandler_def appDo_def appCall_def call_def andThen_def returns_def
      emit_def newArcInit_def quietEnv_def)

text \<open>
  C8, as amended. With the application element in the document, every name of the
  application-command vocabulary is dispatched to a handler of its own, for every list of
  trailing arguments: \<open>get-tabs-count\<close> and \<open>process-external-file\<close> pass
  \<open>args[0]\<close> on, \<open>activate-tab\<close> and \<open>get-request-data\<close> pass \<open>args[0]\<close> and
  \<open>args[1]\<close>, unmodified; every other handler is called without arguments, the
  trailing arguments being dropped. The call of the handler is the first thing a dispatch
  does and the only handler call it makes: the second table lists everything a dispatch
  does, the handler call followed by what the handler itself does.
\<close>

theorem command_dispatch:
  assumes "appPresent s"
  shows "map (\<lambda>c. firstEvent (commandHandler E c args) s) applicationCommands =
           [Some (Call ''app.openSettings'' []),
            Some (Call ''app.openAbout'' []),
            Some (Call ''app.openLicense'' []),
            Some (Call ''app.openImport'' []),
            Some (Call ''app.openExport'' []),
            Some (Call ''app.openSaved'' []),
            Some (Call ''app.openHistory'' []),
            Some (Call ''app.openDrivePicker'' []),
            Some (Call ''app.openInfoCenter'' []),
            Some (Call ''app.openWebUrl'' []),
            Some (Call ''app.openCookieManager'' []),
            Some (Call ''app.openHostRules'' []),
            Some (Call ''this.sendTabsCount'' [argAt args 0]),
            Some (Call ''this.activateTab'' [argAt args 0, argAt args 1]),
            Some (Call ''this.getRequestData'' [argAt args 0, argAt args 1]),
            Some (Call ''app.openThemesPanel'' []),
            Some (Call ''app.openWorkspace'' []),
            Some (Call ''app.openWebSocket'' []),
            Some (Call ''this._toggleMenuWindow'' []),
            Some (Call ''this.processExternalFile'' [argAt args 0]),
            Some (Call ''app.openOnboarding'' []),
            Some (Call ''app.openWorkspaceDetails'' []),
            Some (Call ''this.exportWorkspace'' [])] \<and>
         distinct (map (\<lambda>c. firstEvent (commandHandler E c args) s) applicationCommands) \<and>
         map (\<lambda>c. newEvents (commandHandler E c args) s) applicationCommands =
             [[Call ''app.openSettings'' []],
              [Call ''app.openAbout'' []],
              [Call ''app.openLicense'' []],
              [Call ''app.openImport'' []],
              [Call ''app.openExport'' []],
              [Call ''app.openSaved'' []],
              [Call ''app.openHistory'' []],
              [Call ''app.openDrivePicker'' []],
              [Call ''app.openInfoCenter'' []],
              [Call ''app.openWebUrl'' []],
              [Call ''app.openCookieManager'' []],
              [Call ''app.openHostRules'' []],
              Call ''this.sendTabsCount'' [argAt args 0] #
                Call ''app.getTabsCount'' [] #
                (case appMethod E ''getTabsCount'' [] of
                   Inl err \<Rightarrow> []
                 | Inr cnt \<Rightarrow>
                     [SenderSend ''current-tabs-count'' [argAt args 0, JBool False, cnt]]),
              [Call ''this.activateTab'' [argAt args 0, argAt args 1],
               SetProperty ''app.workspace.selected'' (argAt args 1),
               SenderSend ''tab-activated'' [argAt args 0, JBool False]],
              [Call ''this.getRequestData'' [argAt args 0, argAt args 1],
               SenderSend ''request-data''
                 [argAt args 0, JBool False, activeRequest E (argAt args 1)]],
              [Call ''app.openThemesPanel'' []],
              [Call ''app.openWorkspace'' []],
              [Call ''app.openWebSocket'' []],
              [Call ''this._toggleMenuWindow'' [], Call ''app.requestUpdate'' []],
              Call ''this.processExternalFile'' [argAt args 0] #
                Call ''importPreprocessor.processFile'' [argAt args 0] #
                (case processFile E (argAt args 0) of
                   Inr res \<Rightarrow> []
                 | Inl cause \<Rightarrow>
                     if nullish cause then []
                     else Call ''app.notifyError'' [messageProp cause] #
                          (case appMethod E ''notifyError'' [messageProp cause] of
                             Inl err \<Rightarrow> []
                           | Inr res \<Rightarrow> [ConsoleError [errVal cause]])),
              [Call ''app.openOnboarding'' []],
              [Call ''app.openWorkspaceDetails'' []],
              Call ''this.exportWorkspace'' [] #
                Call ''app.workspace.serializeWorkspace'' [] #
                (case appMethod E ''workspace.serializeWorkspace'' [] of
                   Inl err \<Rightarrow> []
                 | Inr workspace \<Rightarrow>
                     [Call ''fs.exportFileData''
                        [workspace, JStr ''application/json'', JStr ''arc-workspace.arc'']])]"
proof -
  note fe = firstEvent_appDo [OF assms] firstEvent_invoke_framed
    framed_sendTabsCount framed_activateTab framed_getRequestData framed_toggleMenuWindow
    framed_detached framed_processExternalFile framed_exportWorkspace
  note ne = newEvents_appDo [OF assms] newEvents_invoke appPresent_emit assms
    framed_sendTabsCount framed_activateTab framed_getRequestData framed_toggleMenuWindow
    framed_detached framed_processExternalFile framed_exportWorkspace
    newEvents_sendTabsCount newEvents_activateTab newEvents_getRequestData
    newEvents_toggleMenuWindow newEvents_processExternalFile newEvents_exportWorkspace
  have e: "map (\<lambda>c. firstEvent (commandHandler E c args) s) applicationCommands =
           [Some (Call ''app.openSettings'' []),
            Some (Call ''app.openAbout'' []),
            Some (Call ''app.openLicense'' []),
            Some (Call ''app.openImport'' []),
            Some (Call ''app.openExport'' []),
            Some (Call ''app.openSaved'' []),
            Some (Call ''app.openHistory'' []),
            Some (Call ''app.openDrivePicker'' []),
            Some (Call ''app.openInfoCenter'' []),
            Some (Call ''app.openWebUrl'' []),
            Some (Call ''app.openCookieManager'' []),
            Some (Call ''app.openHostRules'' []),
            Some (Call ''this.sendTabsCount'' [argAt args 0]),
            Some (Call ''this.activateTab'' [argAt args 0, argAt args 1]),
            Some (Call ''this.getRequestData'' [argAt args 0, argAt args 1]),
            Some (Call ''app.openThemesPanel'' []),
            Some (Call ''app.openWorkspace'' []),
            Some (Call ''app.openWebSocket'' []),
            Some (Call ''this._toggleMenuWindow'' []),
            Some (Call ''this.processExternalFile'' [argAt args 0]),
            Some (Call ''app.openOnboarding'' []),
            Some (Call ''app.openWorkspaceDetails'' []),
            Some (Call ''this.exportWorkspace'' [])]"
    by (simp add: applicationCommands_def commandHandler_def fe)
  have w: "map (\<lambda>c. newEvents (commandHandler E c args) s) applicationCommands =
           [[Call ''app.openSettings'' []],
            [Call ''app.openAbout'' []],
            [Call ''app.openLicense'' []],
            [Call ''app.openImport'' []],
            [Call ''app.openExport'' []],
            [Call ''app.openSaved'' []],
            [Call ''app.openHistory'' []],
            [Call ''app.openDrivePicker'' []],
            [Call ''app.openInfoCenter'' []],
            [Call ''app.openWebUrl'' []],
            [Call ''app.openCookieManager'' []],
            [Call ''app.openHostRules'' []],
            Call ''this.sendTabsCount'' [argAt args 0] #
              Call ''app.getTabsCount'' [] #
              (case appMethod E ''getTabsCount'' [] of
                 Inl err \<Rightarrow> []
               | Inr cnt \<Rightarrow>
                   [SenderSend ''current-tabs-count'' [argAt args 0, JBool False, cnt]]),
            [Call ''this.activateTab'' [argAt args 0, argAt args 1],
             SetProperty ''app.workspace.selected'' (argAt args 1),
             SenderSend ''tab-activated'' [argAt args 0, JBool False]],
            [Call ''this.getRequestData'' [argAt args 0, argAt args 1],
             SenderSend ''request-data''
               [argAt args 0, JBool False, activeRequest E (argAt args 1)]],
            [Call ''app.openThemesPanel'' []],
            [Call ''app.openWorkspace'' []],
            [Call ''app.openWebSocket'' []],
            [Call ''this._toggleMenuWindow'' [], Call ''app.requestUpdate'' []],
            Call ''this.processExternalFile'' [argAt args 0] #
              Call ''importPreprocessor.processFile'' [argAt args 0] #
              (case processFile E (argAt args 0) of
                 Inr res \<Rightarrow> []
               | Inl cause \<Rightarrow>
                   if nullish cause then []
                   else Call ''app.notifyError'' [messageProp cause] #
                        (case appMethod E ''notifyError'' [messageProp cause] of
                           Inl err \<Rightarrow> []
                         | Inr res \<Rightarrow> [ConsoleError [errVal cause]])),
            [Call ''app.openOnboarding'' []],
            [Call ''app.openWorkspaceDetails'' []],
            Call ''this.exportWorkspace'' [] #
              Call ''app.workspace.serializeWorkspace'' [] #
              (case appMethod E ''workspace.serializeWorkspace'' [] of
                 Inl err \<Rightarrow> []
               | Inr workspace \<Rightarrow>
                   [Call ''fs.exportFileData''
                      [workspace, JStr ''application/json'', JStr ''arc-workspace.arc'']])]"
    by (simp add: applicationCommands_def commandHandler_def ne)
  have d: "distinct (map (\<lambda>c. firstEvent (commandHandler E c args) s) applicationCommands)"
    unfolding e by simp
  from e d w show ?thesis by (intro conjI)
qed

theorem command_dispatch_witness:
  "appPresent (newArcInit\<lparr>appPresent := True\<rparr>) \<and>
   firstEvent (commandHandler quietEnv ''activate-tab'' [JNum 4, JNum 2])
     (newArcInit\<lparr>appPresent := True\<rparr>) = Some (Call ''this.activateTab'' [JNum 4, JNum 2]) \<and>
   firstEvent (commandHandler quietEnv ''open-saved'' [JNum 4, JNum 2])
     (newArcInit\<lparr>appPresent := True\<rparr>) = Some (Call ''app.openSaved'' []) \<and>
   newEvents (commandHandler quietEnv ''activate-tab'' [JNum 4, JNum 2])
     (newArcInit\<lparr>appPresent := True\<rparr>) =
     [Call ''this.activateTab'' [JNum 4, JNum 2],
      SetProperty ''app.workspace.selected'' (JNum 2),
      SenderSend ''tab-activated'' [JNum 4, JBool False]] \<and>
   newEvents (commandHandler quietEnv ''open-saved'' [JNum 4, JNum 2])
     (newArcInit\<lparr>appPresent := True\<rparr>) = [Call ''app.openSaved'' []]"
  using command_dispatch [of "newArcInit\<lparr>appPresent := True\<rparr>" quietEnv "[JNum 4, JNum 2]"]
  by (simp add: applicationCommands_def argAt_def)

end
